theory Spec2Isabelle
  imports Complex_Main "HOL-Library.Word" "HOL-Library.Monad_Syntax"
begin

section \<open>Bytes and big numbers\<close>

text \<open>
  A \<^verbatim>\<open>Buffer\<close> is a list of bytes. A \<^verbatim>\<open>BN\<close> (bn.js) is an arbitrary-precision integer,
  modelled as \<^typ>\<open>int\<close>; the operations of bn.js that can throw return \<^typ>\<open>'a option\<close>,
  with \<^term>\<open>None\<close> for the failed assertion. A JavaScript \<^verbatim>\<open>number\<close> is idealised as an
  exact rational: the rounding of IEEE doubles is not modelled.
\<close>

type_synonym byte = "8 word"
type_synonym buffer = "byte list"

text \<open>\<^verbatim>\<open>a.div(b)\<close>: truncating division; bn.js asserts that the divisor is not zero.\<close>

definition BN_div :: "int \<Rightarrow> int \<Rightarrow> int option" where
  "BN_div a b = (if b = 0 then None else Some (sgn a * sgn b * (\<bar>a\<bar> div \<bar>b\<bar>)))"

text \<open>\<^verbatim>\<open>a.umod(b)\<close>: the non-negative remainder.\<close>

definition BN_umod :: "int \<Rightarrow> int \<Rightarrow> int option" where
  "BN_umod a b = (if b = 0 then None else Some (a mod \<bar>b\<bar>))"

definition BN_gcd :: "int \<Rightarrow> int \<Rightarrow> int" where
  "BN_gcd a b = gcd a b"

text \<open>\<^verbatim>\<open>a.toNumber()\<close>: bn.js asserts that the magnitude fits 53 bits.\<close>

definition BN_toNumber :: "int \<Rightarrow> rat option" where
  "BN_toNumber a = (if \<bar>a\<bar> < 2 ^ 53 then Some (of_int a) else None)"

text \<open>\<^verbatim>\<open>new BN(n)\<close> for an integral number \<open>n\<close>: bn.js asserts \<open>|n| < 2^53\<close>.\<close>

definition BN_new :: "int \<Rightarrow> int option" where
  "BN_new n = (if \<bar>n\<bar> < 2 ^ 53 then Some n else None)"

text \<open>\<^verbatim>\<open>Math.round\<close>: the nearest integer, ties towards plus infinity.\<close>

definition Math_round :: "rat \<Rightarrow> int" where
  "Math_round x = \<lfloor>x + 1 / 2\<rfloor>"

text \<open>
  \<^verbatim>\<open>a.toBuffer('le')\<close> of a non-negative \<^verbatim>\<open>BN\<close>: the little-endian bytes at minimal
  length (one byte for zero).
\<close>

function BN_toBuffer_le :: "nat \<Rightarrow> buffer" where
  "BN_toBuffer_le n =
     (if n < 256 then [of_nat n] else of_nat (n mod 256) # BN_toBuffer_le (n div 256))"
  by pat_completeness auto
termination
proof (relation "measure id")
  show "wf (measure id)" by simp
next
  fix n :: nat
  assume "\<not> n < 256"
  then have "n div 256 < n" by (intro div_less_dividend) simp_all
  then show "(n div 256, n) \<in> measure id" by simp
qed

declare BN_toBuffer_le.simps [simp del]

section \<open>Market: lot and price conversions (market.ts)\<close>

text \<open>
  Of the decoded market state only the two lot sizes take part in the conversions; they are
  decoded from \<^verbatim>\<open>u64\<close> fields into \<^verbatim>\<open>BN\<close>s.
\<close>

record decoded_market =
  baseLotSize :: int
  quoteLotSize :: int

record Market =
  decoded :: decoded_market
  baseSplTokenDecimals :: nat
  quoteSplTokenDecimals :: nat

definition baseSplTokenMultiplier :: "Market \<Rightarrow> int" where
  "baseSplTokenMultiplier m = 10 ^ baseSplTokenDecimals m"

definition quoteSplTokenMultiplier :: "Market \<Rightarrow> int" where
  "quoteSplTokenMultiplier m = 10 ^ quoteSplTokenDecimals m"

definition divideBnToNumber :: "int \<Rightarrow> int \<Rightarrow> rat option" where
  "divideBnToNumber numerator denominator = do {
     q \<leftarrow> BN_div numerator denominator;
     quotient \<leftarrow> BN_toNumber q;
     rem \<leftarrow> BN_umod numerator denominator;
     let gcd = BN_gcd rem denominator;
     rn \<leftarrow> BN_div rem gcd;
     r \<leftarrow> BN_toNumber rn;
     dn \<leftarrow> BN_div denominator gcd;
     d \<leftarrow> BN_toNumber dn;
     Some (quotient + r / d)
   }"

definition priceLotsToNumber :: "Market \<Rightarrow> int \<Rightarrow> rat option" where
  "priceLotsToNumber m price =
     divideBnToNumber
       (price * quoteLotSize (decoded m) * baseSplTokenMultiplier m)
       (baseLotSize (decoded m) * quoteSplTokenMultiplier m)"

definition baseSizeLotsToNumber :: "Market \<Rightarrow> int \<Rightarrow> rat option" where
  "baseSizeLotsToNumber m sz =
     divideBnToNumber (sz * baseLotSize (decoded m)) (baseSplTokenMultiplier m)"

text \<open>
  In \<^verbatim>\<open>baseSizeNumberToLots\<close> the operand of \<^verbatim>\<open>Math.round\<close> is
  \<^verbatim>\<open>size * Math.pow(10, decimals)\<close>, a product of doubles and itself a double: the exact
  product rounded to a double. The function that gives this double from the size and the
  decimals is a parameter, so that what is proved holds for the rounding of IEEE 754
  arithmetic, whatever it does at an input. \<^verbatim>\<open>Math.round\<close> of a double is exact.
\<close>

definition baseSizeNumberToLots :: "(rat \<Rightarrow> nat \<Rightarrow> rat) \<Rightarrow> Market \<Rightarrow> rat \<Rightarrow> int option" where
  "baseSizeNumberToLots mul_pow_ten m sz = do {
     native \<leftarrow> BN_new (Math_round (mul_pow_ten sz (baseSplTokenDecimals m)));
     BN_div native (baseLotSize (decoded m))
   }"

text \<open>
  Where the exact product is a double, as for 1.5 * 1 and 2.5 * 10, the double product is
  the exact product.
\<close>

definition exact_product :: "rat \<Rightarrow> nat \<Rightarrow> rat" where
  "exact_product s d = s * 10 ^ d"

text \<open>Small markets for concrete evaluations.\<close>

definition market_dec1 :: Market where
  "market_dec1 = \<lparr>decoded = \<lparr>baseLotSize = 1, quoteLotSize = 1\<rparr>,
     baseSplTokenDecimals = 1, quoteSplTokenDecimals = 0\<rparr>"


definition market_unit :: Market where
  "market_unit = \<lparr>decoded = \<lparr>baseLotSize = 1, quoteLotSize = 1\<rparr>,
     baseSplTokenDecimals = 0, quoteSplTokenDecimals = 0\<rparr>"

definition market_lot3 :: Market where
  "market_lot3 = \<lparr>decoded = \<lparr>baseLotSize = 3, quoteLotSize = 1\<rparr>,
     baseSplTokenDecimals = 1, quoteSplTokenDecimals = 0\<rparr>"

definition market_lot2 :: Market where
  "market_lot2 = \<lparr>decoded = \<lparr>baseLotSize = 2, quoteLotSize = 1\<rparr>,
     baseSplTokenDecimals = 0, quoteSplTokenDecimals = 0\<rparr>"

section \<open>Slab layout\<close>

text \<open>
  buffer-layout reads an unsigned integer with \<^verbatim>\<open>readUIntLE\<close>, which throws when the
  bytes are not all inside the buffer, and a blob with \<^verbatim>\<open>slice\<close>, which returns the bytes
  that are there. Integers are little-endian.
\<close>

definition read_bytes :: "buffer \<Rightarrow> nat \<Rightarrow> nat \<Rightarrow> buffer option" where
  "read_bytes b off n = (if off + n \<le> length b then Some (take n (drop off b)) else None)"

fun le_nat :: "buffer \<Rightarrow> nat" where
  "le_nat [] = 0"
| "le_nat (x # xs) = unat x + 256 * le_nat xs"

definition uint_decode :: "nat \<Rightarrow> buffer \<Rightarrow> nat \<Rightarrow> nat option" where
  "uint_decode n b off = map_option le_nat (read_bytes b off n)"

definition blob_decode :: "nat \<Rightarrow> buffer \<Rightarrow> nat \<Rightarrow> buffer" where
  "blob_decode n b off = take n (drop off b)"

text \<open>
  The fields of the slab header: \<^verbatim>\<open>u32(name)\<close> of buffer-layout and \<^verbatim>\<open>zeros(n)\<close>, a spacer
  of \<open>n\<close> bytes, which has no property name.
\<close>

datatype field = u32 string | zeros nat

fun field_span :: "field \<Rightarrow> nat" where
  "field_span (u32 name) = 4"
| "field_span (zeros n) = n"

text \<open>
  \<^verbatim>\<open>struct(fields)\<close>: the span is the sum of the field spans; decoding threads the offset
  through the fields and decodes the fields that have a property name, a field without
  one is stepped over and its bytes are not read; \<^verbatim>\<open>offsetOf\<close> is the offset of a named
  field.
\<close>

definition struct_span :: "field list \<Rightarrow> nat" where
  "struct_span fs = sum_list (map field_span fs)"

fun struct_decode :: "field list \<Rightarrow> buffer \<Rightarrow> nat \<Rightarrow> (string \<times> nat) list option" where
  "struct_decode [] b off = Some []"
| "struct_decode (u32 name # fs) b off = do {
     v \<leftarrow> uint_decode 4 b off;
     vs \<leftarrow> struct_decode fs b (off + 4);
     Some ((name, v) # vs)
   }"
| "struct_decode (zeros n # fs) b off = struct_decode fs b (off + n)"

fun struct_offsetOf :: "field list \<Rightarrow> string \<Rightarrow> nat option" where
  "struct_offsetOf [] name = None"
| "struct_offsetOf (f # fs) name =
     (if f = u32 name then Some 0
      else map_option (\<lambda>off. field_span f + off) (struct_offsetOf fs name))"

definition SLAB_HEADER_LAYOUT :: "field list" where
  "SLAB_HEADER_LAYOUT =
     [u32 ''bumpIndex'',
      zeros 4,
      u32 ''freeListLen'',
      zeros 4,
      u32 ''freeListHead'',
      u32 ''root'',
      u32 ''leafCount'',
      zeros 4]"

text \<open>
  The layouts \<^verbatim>\<open>u64\<close>, \<^verbatim>\<open>u128\<close> and \<^verbatim>\<open>publicKeyLayout\<close> are defined in the layout module,
  which is not among the sources. Their decoders are parameters of the node layout.
\<close>

record layout_module =
  u64 :: "buffer \<Rightarrow> nat \<Rightarrow> int option"
  u128 :: "buffer \<Rightarrow> nat \<Rightarrow> int option"
  publicKeyLayout :: "buffer \<Rightarrow> nat \<Rightarrow> buffer option"

text \<open>
  A node is a union of a \<^verbatim>\<open>u32\<close> tag and a 60-byte blob, 64 bytes in all, with five
  registered variants, each a struct that decodes its named fields after the tag (the
  \<^verbatim>\<open>blob(3)\<close> of a leaf has no name and is stepped over); any other tag decodes to the tag
  and the blob.
\<close>

datatype slabNode =
    uninitialized
  | innerNode (prefixLen: nat) (key: int) (children: "nat list")
  | leafNode (ownerSlot: nat) (key: int) (owner: buffer) (quantity: int)
  | freeNode nat
  | lastFreeNode
  | otherNode nat buffer

definition SLAB_NODE_LAYOUT_decode :: "layout_module \<Rightarrow> buffer \<Rightarrow> nat \<Rightarrow> slabNode option" where
  "SLAB_NODE_LAYOUT_decode L b off = do {
     tag \<leftarrow> uint_decode 4 b off;
     if tag = 0 then Some uninitialized
     else if tag = 1 then do {
       pl \<leftarrow> uint_decode 4 b (off + 4);
       k \<leftarrow> u128 L b (off + 8);
       c0 \<leftarrow> uint_decode 4 b (off + 24);
       c1 \<leftarrow> uint_decode 4 b (off + 28);
       Some (innerNode pl k [c0, c1])
     }
     else if tag = 2 then do {
       os \<leftarrow> uint_decode 1 b (off + 4);
       k \<leftarrow> u128 L b (off + 8);
       ow \<leftarrow> publicKeyLayout L b (off + 24);
       q \<leftarrow> u64 L b (off + 56);
       Some (leafNode os k ow q)
     }
     else if tag = 3 then do {
       nxt \<leftarrow> uint_decode 4 b (off + 4);
       Some (freeNode nxt)
     }
     else if tag = 4 then Some lastFreeNode
     else Some (otherNode tag (blob_decode 60 b (off + 4)))
   }"

text \<open>\<^verbatim>\<open>seq(element, count)\<close>: \<open>count\<close> elements, each \<open>sp\<close> bytes after the one before.\<close>

fun seq_decode ::
  "(buffer \<Rightarrow> nat \<Rightarrow> 'a option) \<Rightarrow> nat \<Rightarrow> nat \<Rightarrow> buffer \<Rightarrow> nat \<Rightarrow> 'a list option" where
  "seq_decode elt sp 0 b off = Some []"
| "seq_decode elt sp (Suc n) b off = do {
     x \<leftarrow> elt b off;
     xs \<leftarrow> seq_decode elt sp n b (off + sp);
     Some (x # xs)
   }"

record Slab =
  header :: "(string \<times> nat) list"
  nodes :: "slabNode list"

text \<open>
  \<^verbatim>\<open>SLAB_LAYOUT\<close>: the header, then the sequence of nodes. The count of the sequence is
  an \<^verbatim>\<open>offset\<close> layout: the layout of \<open>bumpIndex\<close> read at the offset
  \<open>offsetOf bumpIndex - span\<close> relative to the start of the sequence, that is, the header's
  \<open>bumpIndex\<close> field read a second time.
\<close>

definition SLAB_LAYOUT_decode :: "layout_module \<Rightarrow> buffer \<Rightarrow> nat \<Rightarrow> Slab option" where
  "SLAB_LAYOUT_decode L b off = do {
     hdr \<leftarrow> struct_decode SLAB_HEADER_LAYOUT b off;
     let nodes_off = off + struct_span SLAB_HEADER_LAYOUT;
     field_off \<leftarrow> struct_offsetOf SLAB_HEADER_LAYOUT ''bumpIndex'';
     let rel = int field_off - int (struct_span SLAB_HEADER_LAYOUT);
     count \<leftarrow> (if int nodes_off + rel < 0 then None
                else uint_decode 4 b (nat (int nodes_off + rel)));
     ns \<leftarrow> seq_decode (SLAB_NODE_LAYOUT_decode L) 64 count b nodes_off;
     Some \<lparr>header = hdr, nodes = ns\<rparr>
   }"

text \<open>
  What the spec says of every layout, for the three absent ones: a decoder of span \<open>n\<close>
  reads no byte outside the \<open>n\<close> bytes at its offset, and it returns a value when these
  \<open>n\<close> bytes are inside the buffer.
\<close>

definition reads_span :: "nat \<Rightarrow> (buffer \<Rightarrow> nat \<Rightarrow> 'a option) \<Rightarrow> bool" where
  "reads_span n d =
     (\<forall>b off b' off'. take n (drop off b) = take n (drop off' b') \<longrightarrow> d b off = d b' off')"

definition total_on_span :: "nat \<Rightarrow> (buffer \<Rightarrow> nat \<Rightarrow> 'a option) \<Rightarrow> bool" where
  "total_on_span n d = (\<forall>b off. off + n \<le> length b \<longrightarrow> d b off \<noteq> None)"

definition layout_reads_spans :: "layout_module \<Rightarrow> bool" where
  "layout_reads_spans L =
     (reads_span 8 (u64 L) \<and> reads_span 16 (u128 L) \<and> reads_span 32 (publicKeyLayout L))"

definition layout_total :: "layout_module \<Rightarrow> bool" where
  "layout_total L =
     (total_on_span 8 (u64 L) \<and> total_on_span 16 (u128 L)
      \<and> total_on_span 32 (publicKeyLayout L))"

text \<open>
  Modelled from the spec: \<^verbatim>\<open>u64\<close>, \<^verbatim>\<open>u128\<close> and \<^verbatim>\<open>publicKeyLayout\<close> of the layout module,
  which is not among the sources, as little-endian unsigned integers of 8 and 16 bytes and
  an opaque copy of 32 bytes. This instance, for concrete evaluations, takes the bytes that
  are there, as a blob does.
\<close>

definition layout_blobs :: layout_module where
  "layout_blobs =
     \<lparr>u64 = (\<lambda>b off. Some (int (le_nat (blob_decode 8 b off)))),
      u128 = (\<lambda>b off. Some (int (le_nat (blob_decode 16 b off)))),
      publicKeyLayout = (\<lambda>b off. Some (blob_decode 32 b off))\<rparr>"

text \<open>
  Slabs for concrete evaluations: a zeroed one with room for one node; one whose header
  counts one node in front of room for two; a header cut after its last named field, with
  a non-zero byte in a spacer; and a slab whose only node has an unregistered tag and is cut
  short.
\<close>

definition slab_bytes_empty :: buffer where
  "slab_bytes_empty = replicate 32 0 @ replicate 64 0"

definition slab_bytes_one :: buffer where
  "slab_bytes_one = [1, 0, 0, 0] @ replicate 28 0 @ replicate 128 0"

definition slab_bytes_short_header :: buffer where
  "slab_bytes_short_header = [0, 0, 0, 0, 7, 0, 0, 0] @ replicate 20 0"

definition slab_bytes_short_node :: buffer where
  "slab_bytes_short_node = [1, 0, 0, 0] @ replicate 28 0 @ [9, 0, 0, 0, 5, 6]"

section \<open>Orderbook (market.ts)\<close>

record accountFlags =
  initialized :: bool
  market :: bool
  openOrders :: bool
  requestQueue :: bool
  eventQueue :: bool
  bids :: bool
  asks :: bool

datatype error = Error string

record 's Orderbook =
  market :: Market
  isBids :: bool
  slab :: 's

text \<open>
  The constructor. On two booleans JavaScript's \<^verbatim>\<open>^\<close> gives 1 when they differ and 0 when
  they are equal, and \<^verbatim>\<open>!\<close> of that number is true exactly for 0.
\<close>

definition Orderbook_new :: "Market \<Rightarrow> accountFlags \<Rightarrow> 's \<Rightarrow> error + 's Orderbook" where
  "Orderbook_new m flags s =
     (if \<not> initialized flags \<or> \<not> (bids flags \<noteq> asks flags)
      then Inl (Error ''Invalid orderbook'')
      else Inr \<lparr>Orderbook.market = m, isBids = bids flags, slab = s\<rparr>)"

text \<open>
  The order book holds the decoded slab. A \<^verbatim>\<open>BN\<close> is a mutable object: the quantity of a
  leaf is identified with the node's position in the node array, so that a reference to the
  quantity of a leaf is the index of the leaf, and \<^verbatim>\<open>iadd\<close> on it updates the node array.
\<close>

text \<open>\<^verbatim>\<open>key.ushrn(64)\<close>: the magnitude shifted right by 64 bits.\<close>

definition getPriceFromKey :: "int \<Rightarrow> int" where
  "getPriceFromKey k = sgn k * (\<bar>k\<bar> div 2 ^ 64)"

text \<open>The \<open>key\<close> and \<open>quantity\<close> of the leaf node at an index, if there is one.\<close>

definition leaf_at :: "slabNode list \<Rightarrow> nat \<Rightarrow> (int \<times> int) option" where
  "leaf_at ns i =
     (if i < length ns
      then (case ns ! i of leafNode os k ow q \<Rightarrow> Some (k, q) | _ \<Rightarrow> None)
      else None)"

text \<open>\<^verbatim>\<open>a.iadd(q)\<close> where \<open>a\<close> is the quantity of the leaf at index \<open>j\<close>.\<close>

definition quantity_iadd :: "slabNode list \<Rightarrow> nat \<Rightarrow> int \<Rightarrow> slabNode list" where
  "quantity_iadd ns j q =
     (if j < length ns
      then (case ns ! j of
              leafNode os k ow q0 \<Rightarrow> ns[j := leafNode os k ow (q0 + q)]
            | _ \<Rightarrow> ns)
      else ns)"

text \<open>
  The loop of \<^verbatim>\<open>getL2\<close> over the leaves that \<^verbatim>\<open>slab.items(descending)\<close> yields, given by
  their indices. A level is the pair of a price and a reference to a quantity. The loop
  returns the levels and the node array as the \<^verbatim>\<open>iadd\<close>s leave it.
\<close>

fun getL2_loop ::
  "int \<Rightarrow> nat list \<Rightarrow> (int \<times> nat) list \<Rightarrow> slabNode list
    \<Rightarrow> ((int \<times> nat) list \<times> slabNode list) option" where
  "getL2_loop depth [] levels ns = Some (levels, ns)"
| "getL2_loop depth (i # rest) levels ns =
     (case leaf_at ns i of
        None \<Rightarrow> None
      | Some (k, q) \<Rightarrow>
          let price = getPriceFromKey k in
          if levels \<noteq> [] \<and> fst (last levels) = price
          then getL2_loop depth rest levels (quantity_iadd ns (snd (last levels)) q)
          else if int (length levels) = depth then Some (levels, ns)
          else getL2_loop depth rest (levels @ [(price, i)]) ns)"

type_synonym level = "rat \<times> rat \<times> int \<times> int"

definition level_of :: "Market \<Rightarrow> int \<times> int \<Rightarrow> level option" where
  "level_of m l = do {
     price \<leftarrow> priceLotsToNumber m (fst l);
     sz \<leftarrow> baseSizeLotsToNumber m (snd l);
     Some (price, sz, fst l, snd l)
   }"

text \<open>
  \<^verbatim>\<open>getL2\<close> of market.ts. The traversal \<^verbatim>\<open>Slab.items\<close> is not among the sources and is a
  parameter: \<open>items s descending\<close> is the list of the indices of the leaves yielded. The
  result is \<^term>\<open>None\<close> when a conversion throws; with the levels comes the slab as the call
  leaves it.
\<close>

definition getL2 ::
  "(Slab \<Rightarrow> bool \<Rightarrow> nat list) \<Rightarrow> Slab Orderbook \<Rightarrow> int \<Rightarrow> (level list \<times> Slab) option" where
  "getL2 items ob depth = do {
     let descending = isBids ob;
     (levels, ns) \<leftarrow> getL2_loop depth (items (slab ob) descending) [] (nodes (slab ob));
     result \<leftarrow> those (map (\<lambda>(priceLots, j). do {
                  (k, sizeLots) \<leftarrow> leaf_at ns j;
                  level_of (Orderbook.market ob) (priceLots, sizeLots)
                }) levels);
     Some (result, (slab ob)\<lparr>nodes := ns\<rparr>)
   }"

text \<open>
  The price levels of a sequence of (price, size) pairs, in the words of the specification:
  every run of consecutive entries with the same price is one level, whose size is the sum
  of the sizes of the run.
\<close>

function priceLevels :: "(int \<times> int) list \<Rightarrow> (int \<times> int) list" where
  "priceLevels [] = []"
| "priceLevels ((p, q) # xs) =
     (p, q + sum_list (map snd (takeWhile (\<lambda>x. fst x = p) xs)))
       # priceLevels (dropWhile (\<lambda>x. fst x = p) xs)"
  by pat_completeness auto
termination
  by (relation "measure length") (auto simp: length_dropWhile_le less_Suc_eq_le)

text \<open>The levels of the loop with the sizes that their references point to.\<close>

definition level_values :: "slabNode list \<Rightarrow> (int \<times> nat) list \<Rightarrow> (int \<times> int) list" where
  "level_values ns levels = map (\<lambda>(p, j). (p, quantity (ns ! j))) levels"

text \<open>The price and size of the leaf at an index.\<close>

definition leaf_level :: "slabNode list \<Rightarrow> nat \<Rightarrow> int \<times> int" where
  "leaf_level ns i = (getPriceFromKey (key (ns ! i)), quantity (ns ! i))"

subsection \<open>The same function in market.js\<close>

text \<open>
  \<^verbatim>\<open>getL2\<close> of market.js differs in two places. It compares prices with \<^verbatim>\<open>equals\<close>, where
  market.ts uses \<^verbatim>\<open>eq\<close>; bn.js is not among the sources, so the member \<^verbatim>\<open>equals\<close> of a
  \<^verbatim>\<open>BN\<close> is a parameter, \<^term>\<open>None\<close> when there is no such method (calling it then throws).
  And it passes \<^verbatim>\<open>sizeLots.mul(this.market.baseLotSize)\<close> to the size conversion: the class
  \<^verbatim>\<open>Market\<close> of market.js has no member \<^verbatim>\<open>baseLotSize\<close> (the lot sizes are in \<^verbatim>\<open>_decoded\<close>),
  the property is undefined and \<^verbatim>\<open>mul\<close> throws.
\<close>

definition Market_baseLotSize_js :: "Market \<Rightarrow> int option" where
  "Market_baseLotSize_js m = None"

fun BN_mul_js :: "int \<Rightarrow> int option \<Rightarrow> int option" where
  "BN_mul_js a None = None"
| "BN_mul_js a (Some b) = Some (a * b)"

fun getL2_js_loop ::
  "(int \<Rightarrow> int \<Rightarrow> bool) option \<Rightarrow> int \<Rightarrow> nat list \<Rightarrow> (int \<times> nat) list \<Rightarrow> slabNode list
    \<Rightarrow> ((int \<times> nat) list \<times> slabNode list) option" where
  "getL2_js_loop BN_equals depth [] levels ns = Some (levels, ns)"
| "getL2_js_loop BN_equals depth (i # rest) levels ns =
     (case leaf_at ns i of
        None \<Rightarrow> None
      | Some (k, q) \<Rightarrow>
          let price = getPriceFromKey k in
          if levels \<noteq> [] \<and> BN_equals = None then None
          else if levels \<noteq> [] \<and> the BN_equals (fst (last levels)) price
          then getL2_js_loop BN_equals depth rest levels
                 (quantity_iadd ns (snd (last levels)) q)
          else if int (length levels) = depth then Some (levels, ns)
          else getL2_js_loop BN_equals depth rest (levels @ [(price, i)]) ns)"

definition getL2_js ::
  "(int \<Rightarrow> int \<Rightarrow> bool) option \<Rightarrow> (Slab \<Rightarrow> bool \<Rightarrow> nat list) \<Rightarrow> Slab Orderbook \<Rightarrow> int
    \<Rightarrow> (level list \<times> Slab) option" where
  "getL2_js BN_equals items ob depth = do {
     let descending = isBids ob;
     (levels, ns) \<leftarrow>
       getL2_js_loop BN_equals depth (items (slab ob) descending) [] (nodes (slab ob));
     result \<leftarrow> those (map (\<lambda>(priceLots, j). do {
                  (k, sizeLots) \<leftarrow> leaf_at ns j;
                  price \<leftarrow> priceLotsToNumber (Orderbook.market ob) priceLots;
                  native \<leftarrow> BN_mul_js sizeLots (Market_baseLotSize_js (Orderbook.market ob));
                  sz \<leftarrow> baseSizeLotsToNumber (Orderbook.market ob) native;
                  Some (price, sz, priceLots, sizeLots)
                }) levels);
     Some (result, (slab ob)\<lparr>nodes := ns\<rparr>)
   }"

subsection \<open>A slab and a traversal for concrete evaluations\<close>

text \<open>
  Modelled from the spec: \<^verbatim>\<open>Slab.items\<close>, of the slab module, which is not among the sources.
  An in-order depth-first walk from \<open>root\<close>: ascending visits the 0-branch before the
  1-branch at each inner node, descending the reverse; a slab with \<open>leafCount = 0\<close> yields
  nothing. The walk visits at most as many nodes as the array holds.
\<close>

fun Slab_walk :: "nat \<Rightarrow> slabNode list \<Rightarrow> bool \<Rightarrow> nat list \<Rightarrow> nat list" where
  "Slab_walk 0 ns descending stack = []"
| "Slab_walk (Suc fuel) ns descending [] = []"
| "Slab_walk (Suc fuel) ns descending (i # stack) =
     (if i < length ns
      then (case ns ! i of
              leafNode os k ow q \<Rightarrow> i # Slab_walk fuel ns descending stack
            | innerNode pl k cs \<Rightarrow>
                Slab_walk fuel ns descending ((if descending then rev cs else cs) @ stack)
            | _ \<Rightarrow> Slab_walk fuel ns descending stack)
      else Slab_walk fuel ns descending stack)"

definition Slab_items :: "Slab \<Rightarrow> bool \<Rightarrow> nat list" where
  "Slab_items s descending =
     (case (map_of (header s) ''leafCount'', map_of (header s) ''root'') of
        (Some leaf_count, Some root_index) \<Rightarrow>
          if leaf_count = 0 then []
          else Slab_walk (length (nodes s)) (nodes s) descending [root_index]
      | _ \<Rightarrow> [])"

text \<open>
  Three resting orders with the keys (price 5, sequence 1), (price 5, sequence 2) and
  (price 3, sequence 1) and the quantities 2, 3 and 4.
\<close>

definition slab_three :: Slab where
  "slab_three =
     \<lparr>header = [(''bumpIndex'', 5), (''freeListLen'', 0), (''freeListHead'', 0),
                 (''root'', 0), (''leafCount'', 3)],
      nodes = [innerNode 61 0 [1, 2],
               leafNode 0 (3 * 2 ^ 64 + 1) [] 4,
               innerNode 127 (5 * 2 ^ 64) [3, 4],
               leafNode 0 (5 * 2 ^ 64 + 1) [] 2,
               leafNode 1 (5 * 2 ^ 64 + 2) [] 3]\<rparr>"

definition flags_bids :: accountFlags where
  "flags_bids = \<lparr>initialized = True, market = False, openOrders = False,
     requestQueue = False, eventQueue = False, bids = True, asks = False\<rparr>"

definition flags_asks :: accountFlags where
  "flags_asks = \<lparr>initialized = True, market = False, openOrders = False,
     requestQueue = False, eventQueue = False, bids = False, asks = True\<rparr>"

definition book_bids :: "Slab Orderbook" where
  "book_bids = \<lparr>Orderbook.market = market_lot2, isBids = True, slab = slab_three\<rparr>"

definition book_asks :: "Slab Orderbook" where
  "book_asks = \<lparr>Orderbook.market = market_lot2, isBids = False, slab = slab_three\<rparr>"

text \<open>The slab above after one and after two calls of \<open>getL2 1\<close> on the bid side.\<close>

definition slab_three_after :: Slab where
  "slab_three_after =
     slab_three\<lparr>nodes := (nodes slab_three)[4 := leafNode 1 (5 * 2 ^ 64 + 2) [] 5]\<rparr>"

definition slab_three_twice :: Slab where
  "slab_three_twice =
     slab_three\<lparr>nodes := (nodes slab_three)[4 := leafNode 1 (5 * 2 ^ 64 + 2) [] 7]\<rparr>"

section \<open>Pool schema (packages/pool/src/schema.ts)\<close>

definition POOL_STATE_TAG :: int where
  "POOL_STATE_TAG = 0x16a7874c7fb2301b"

definition POOL_REQUEST_TAG :: int where
  "POOL_REQUEST_TAG = 0x220a6cbdcd1cc4cf"

text \<open>\<^verbatim>\<open>data.slice(0, 8).equals(POOL_REQUEST_TAG.toBuffer('le'))\<close>\<close>

definition isPoolState :: "buffer \<Rightarrow> bool" where
  "isPoolState data = (take 8 data = BN_toBuffer_le (nat POOL_REQUEST_TAG))"

subsection \<open>The layout codec of the pool schema\<close>

text \<open>
  Modelled from the spec: the layouts \<^verbatim>\<open>u64\<close>, \<^verbatim>\<open>i64\<close>, \<^verbatim>\<open>vec\<close>, \<^verbatim>\<open>rustEnum\<close> and
  \<^verbatim>\<open>tagged\<close> of the borsh module, which is not among the sources (\<^verbatim>\<open>u8\<close>, \<^verbatim>\<open>u16\<close> and
  \<^verbatim>\<open>struct\<close> are those of buffer-layout). Integers are little-endian, \<^verbatim>\<open>i64\<close> in two's
  complement; a vector is a 4-byte count followed by its elements; an enum is a 1-byte
  discriminant, assigned by declaration order, followed by the payload of that variant; a
  tagged record is an 8-byte little-endian magic followed by the payload. A decoder is given
  the bytes from its offset on and returns the value and the bytes after it; it fails when
  the buffer ends too early, on a discriminant without variant, and on a magic that does not
  match. The spec gives the round trip for the values in the range of a layout and does not
  say what encoding does with a value outside it: here such a value is not encoded, and
  what is proved of the encoders below is about values in range only.
\<close>

type_synonym 'a decoder = "buffer \<Rightarrow> ('a \<times> buffer) option"

fun le_bytes :: "nat \<Rightarrow> nat \<Rightarrow> buffer" where
  "le_bytes 0 v = []"
| "le_bytes (Suc n) v = of_nat (v mod 256) # le_bytes n (v div 256)"

definition uint_encode :: "nat \<Rightarrow> nat \<Rightarrow> buffer option" where
  "uint_encode n v = (if v < 256 ^ n then Some (le_bytes n v) else None)"

definition uint_parse :: "nat \<Rightarrow> nat decoder" where
  "uint_parse n b = (if n \<le> length b then Some (le_nat (take n b), drop n b) else None)"

definition u64_encode :: "int \<Rightarrow> buffer option" where
  "u64_encode v = (if 0 \<le> v \<and> v < 2 ^ 64 then Some (le_bytes 8 (nat v)) else None)"

definition u64_decode :: "int decoder" where
  "u64_decode b = map_option (\<lambda>(u, r). (int u, r)) (uint_parse 8 b)"

definition i64_encode :: "int \<Rightarrow> buffer option" where
  "i64_encode v =
     (if - (2 ^ 63) \<le> v \<and> v < 2 ^ 63 then Some (le_bytes 8 (nat (v mod 2 ^ 64))) else None)"

definition i64_decode :: "int decoder" where
  "i64_decode b =
     map_option (\<lambda>(u, r). (if u < 2 ^ 63 then int u else int u - 2 ^ 64, r)) (uint_parse 8 b)"

fun vec_encode_elements :: "('a \<Rightarrow> buffer option) \<Rightarrow> 'a list \<Rightarrow> buffer option" where
  "vec_encode_elements enc [] = Some []"
| "vec_encode_elements enc (x # xs) = do {
     a \<leftarrow> enc x;
     b \<leftarrow> vec_encode_elements enc xs;
     Some (a @ b)
   }"

definition vec_encode :: "('a \<Rightarrow> buffer option) \<Rightarrow> 'a list \<Rightarrow> buffer option" where
  "vec_encode enc xs = do {
     n \<leftarrow> uint_encode 4 (length xs);
     es \<leftarrow> vec_encode_elements enc xs;
     Some (n @ es)
   }"

fun vec_decode_elements :: "'a decoder \<Rightarrow> nat \<Rightarrow> 'a list decoder" where
  "vec_decode_elements dec 0 b = Some ([], b)"
| "vec_decode_elements dec (Suc n) b = do {
     (x, r) \<leftarrow> dec b;
     (xs, r') \<leftarrow> vec_decode_elements dec n r;
     Some (x # xs, r')
   }"

definition vec_decode :: "'a decoder \<Rightarrow> 'a list decoder" where
  "vec_decode dec b = do {
     (n, r) \<leftarrow> uint_parse 4 b;
     vec_decode_elements dec n r
   }"

subsection \<open>Pool requests\<close>

record InitializePoolRequest =
  vaultSignerNonce :: nat
  assetsLength :: nat
  customStateLength :: nat

record Basket =
  quantities :: "int list"

datatype PoolAction = create int | redeem int | swap Basket

datatype PoolRequest =
    initialize InitializePoolRequest
  | getBasket PoolAction
  | transact PoolAction

text \<open>\<^verbatim>\<open>Basket = struct([vec(i64(), 'quantities')])\<close>\<close>

definition Basket_encode :: "Basket \<Rightarrow> buffer option" where
  "Basket_encode v = vec_encode i64_encode (quantities v)"

definition Basket_decode :: "Basket decoder" where
  "Basket_decode b = map_option (\<lambda>(xs, r). (\<lparr>quantities = xs\<rparr>, r)) (vec_decode i64_decode b)"

text \<open>\<^verbatim>\<open>PoolAction = rustEnum([u64('create'), u64('redeem'), Basket.replicate('swap')])\<close>\<close>

fun PoolAction_encode :: "PoolAction \<Rightarrow> buffer option" where
  "PoolAction_encode (create v) = map_option ((#) 0) (u64_encode v)"
| "PoolAction_encode (redeem v) = map_option ((#) 1) (u64_encode v)"
| "PoolAction_encode (swap v) = map_option ((#) 2) (Basket_encode v)"

definition PoolAction_decode :: "PoolAction decoder" where
  "PoolAction_decode b = do {
     (d, r) \<leftarrow> uint_parse 1 b;
     if d = 0 then map_option (\<lambda>(v, r'). (create v, r')) (u64_decode r)
     else if d = 1 then map_option (\<lambda>(v, r'). (redeem v, r')) (u64_decode r)
     else if d = 2 then map_option (\<lambda>(v, r'). (swap v, r')) (Basket_decode r)
     else None
   }"

text \<open>
  \<^verbatim>\<open>InitializePoolRequest =
    struct([u8('vaultSignerNonce'), u8('assetsLength'), u16('customStateLength')])\<close>
\<close>

definition InitializePoolRequest_encode :: "InitializePoolRequest \<Rightarrow> buffer option" where
  "InitializePoolRequest_encode v = do {
     a \<leftarrow> uint_encode 1 (vaultSignerNonce v);
     b \<leftarrow> uint_encode 1 (assetsLength v);
     c \<leftarrow> uint_encode 2 (customStateLength v);
     Some (a @ b @ c)
   }"

definition InitializePoolRequest_decode :: "InitializePoolRequest decoder" where
  "InitializePoolRequest_decode b = do {
     (n, r1) \<leftarrow> uint_parse 1 b;
     (l, r2) \<leftarrow> uint_parse 1 r1;
     (c, r3) \<leftarrow> uint_parse 2 r2;
     Some (\<lparr>vaultSignerNonce = n, assetsLength = l, customStateLength = c\<rparr>, r3)
   }"

text \<open>
  \<^verbatim>\<open>PoolRequest = tagged(POOL_REQUEST_TAG, rustEnum([
    InitializePoolRequest.replicate('initialize'),
    PoolAction.replicate('getBasket'),
    PoolAction.replicate('transact')]))\<close>
\<close>

fun PoolRequest_encode :: "PoolRequest \<Rightarrow> buffer option" where
  "PoolRequest_encode (initialize v) =
     map_option (\<lambda>p. le_bytes 8 (nat POOL_REQUEST_TAG) @ 0 # p) (InitializePoolRequest_encode v)"
| "PoolRequest_encode (getBasket v) =
     map_option (\<lambda>p. le_bytes 8 (nat POOL_REQUEST_TAG) @ 1 # p) (PoolAction_encode v)"
| "PoolRequest_encode (transact v) =
     map_option (\<lambda>p. le_bytes 8 (nat POOL_REQUEST_TAG) @ 2 # p) (PoolAction_encode v)"

definition PoolRequest_decode :: "PoolRequest decoder" where
  "PoolRequest_decode b = do {
     (tag, r) \<leftarrow> uint_parse 8 b;
     if int tag \<noteq> POOL_REQUEST_TAG then None
     else do {
       (d, r') \<leftarrow> uint_parse 1 r;
       if d = 0 then map_option (\<lambda>(v, r''). (initialize v, r'')) (InitializePoolRequest_decode r')
       else if d = 1 then map_option (\<lambda>(v, r''). (getBasket v, r'')) (PoolAction_decode r')
       else if d = 2 then map_option (\<lambda>(v, r''). (transact v, r'')) (PoolAction_decode r')
       else None
     }
   }"

text \<open>
  \<^verbatim>\<open>encodePoolRequest\<close> encodes into a buffer of 1000 bytes and returns the part written; an
  encoding that does not fit fails. \<^verbatim>\<open>decodePoolRequest\<close> decodes from offset 0.
\<close>

definition encodePoolRequest :: "PoolRequest \<Rightarrow> buffer option" where
  "encodePoolRequest poolRequest = do {
     bs \<leftarrow> PoolRequest_encode poolRequest;
     if length bs \<le> 1000 then Some bs else None
   }"

definition decodePoolRequest :: "buffer \<Rightarrow> PoolRequest option" where
  "decodePoolRequest data = map_option fst (PoolRequest_decode data)"

text \<open>
  The values in the range of the layouts declared above: \<^verbatim>\<open>u8\<close> and \<^verbatim>\<open>u16\<close> fields below
  \<open>2^8\<close> and \<open>2^16\<close>, \<^verbatim>\<open>u64\<close> amounts from 0 to \<open>2^64 - 1\<close>, \<^verbatim>\<open>i64\<close> quantities from
  \<open>- 2^63\<close> to \<open>2^63 - 1\<close>, and a vector with a count that fits its 4 bytes.
\<close>

definition u64_valid :: "int \<Rightarrow> bool" where
  "u64_valid v = (0 \<le> v \<and> v < 2 ^ 64)"

definition i64_valid :: "int \<Rightarrow> bool" where
  "i64_valid v = (- (2 ^ 63) \<le> v \<and> v < 2 ^ 63)"

definition Basket_valid :: "Basket \<Rightarrow> bool" where
  "Basket_valid v = (length (quantities v) < 2 ^ 32 \<and> list_all i64_valid (quantities v))"

fun PoolAction_valid :: "PoolAction \<Rightarrow> bool" where
  "PoolAction_valid (create v) = u64_valid v"
| "PoolAction_valid (redeem v) = u64_valid v"
| "PoolAction_valid (swap v) = Basket_valid v"

definition InitializePoolRequest_valid :: "InitializePoolRequest \<Rightarrow> bool" where
  "InitializePoolRequest_valid v =
     (vaultSignerNonce v < 2 ^ 8 \<and> assetsLength v < 2 ^ 8 \<and> customStateLength v < 2 ^ 16)"

fun PoolRequest_valid :: "PoolRequest \<Rightarrow> bool" where
  "PoolRequest_valid (initialize v) = InitializePoolRequest_valid v"
| "PoolRequest_valid (getBasket v) = PoolAction_valid v"
| "PoolRequest_valid (transact v) = PoolAction_valid v"

text \<open>
  The number of bytes of an encoding: 8 of magic and 1 of discriminant, then 4 for an
  \<^verbatim>\<open>InitializePoolRequest\<close>, or for a \<^verbatim>\<open>PoolAction\<close> 1 of discriminant and 8 for an amount or
  4 and 8 for each quantity of a basket.
\<close>

fun PoolAction_span :: "PoolAction \<Rightarrow> nat" where
  "PoolAction_span (create v) = 1 + 8"
| "PoolAction_span (redeem v) = 1 + 8"
| "PoolAction_span (swap v) = 1 + (4 + 8 * length (quantities v))"

fun PoolRequest_span :: "PoolRequest \<Rightarrow> nat" where
  "PoolRequest_span (initialize v) = 8 + 1 + 4"
| "PoolRequest_span (getBasket v) = 8 + 1 + PoolAction_span v"
| "PoolRequest_span (transact v) = 8 + 1 + PoolAction_span v"

section \<open>Theorems\<close>

subsection \<open>Big-number arithmetic on non-negative values\<close>


lemma BN_div_nonneg: "0 \<le> a \<Longrightarrow> 0 < b \<Longrightarrow> BN_div a b = Some (a div b)"
  by (cases "a = 0") (simp_all add: BN_div_def)

lemma BN_umod_pos: "0 < b \<Longrightarrow> BN_umod a b = Some (a mod b)"
  by (simp add: BN_umod_def)


lemma Math_round_eqI:
  "of_int z \<le> x + 1 / 2 \<Longrightarrow> x + 1 / 2 < of_int z + 1 \<Longrightarrow> Math_round x = z"
  unfolding Math_round_def by (rule floor_unique)

lemma Math_round_int: "x \<in> \<int> \<Longrightarrow> of_int (Math_round x) = x"
  unfolding Math_round_def by (elim Ints_cases) (simp, linarith)

lemma Math_round_nonneg: "0 \<le> x \<Longrightarrow> 0 \<le> Math_round x"
  unfolding Math_round_def by simp

lemma divideBnToNumber_nonneg:
  assumes "0 \<le> n" "0 < d"
  shows "divideBnToNumber n d =
    do { a \<leftarrow> BN_toNumber (n div d);
         b \<leftarrow> BN_toNumber ((n mod d) div gcd (n mod d) d);
         c \<leftarrow> BN_toNumber (d div gcd (n mod d) d);
         Some (a + b / c) }"
proof -
  have g: "0 < gcd (n mod d) d" using assms by simp
  have r: "0 \<le> n mod d" using assms by simp
  show ?thesis
    unfolding divideBnToNumber_def BN_gcd_def Let_def
    using assms g r by (simp add: BN_div_nonneg BN_umod_pos)
qed

lemma reduced_fraction_exact:
  fixes n d :: int
  assumes "0 < d"
  shows "(of_int (n div d)
            + of_int ((n mod d) div gcd (n mod d) d) / of_int (d div gcd (n mod d) d) :: rat)
          = of_int n / of_int d"
proof -
  define g where "g = gcd (n mod d) d"
  have g0: "g \<noteq> 0" using assms by (simp add: g_def)
  have gr: "g dvd n mod d" and gd: "g dvd d" by (simp_all add: g_def)
  obtain r' where r': "n mod d = g * r'" using gr by (auto simp: dvd_def)
  obtain d' where d': "d = g * d'" using gd by (auto simp: dvd_def)
  have d'0: "d' \<noteq> 0" using assms d' by auto
  have "(of_int ((n mod d) div g) / of_int (d div g) :: rat) = of_int r' / of_int d'"
    using g0 r' d' by (metis nonzero_mult_div_cancel_left)
  also have "\<dots> = of_int (n mod d) / of_int d"
    using g0 d'0 r' d' by (metis mult_divide_mult_cancel_left of_int_eq_0_iff of_int_mult)
  finally have 1:
    "(of_int ((n mod d) div g) / of_int (d div g) :: rat) = of_int (n mod d) / of_int d" .
  have "(of_int n :: rat) = of_int (n div d) * of_int d + of_int (n mod d)"
    by (metis div_mult_mod_eq of_int_add of_int_mult)
  then have "(of_int n / of_int d :: rat) = of_int (n div d) + of_int (n mod d) / of_int d"
    using assms by (simp add: field_simps)
  with 1 show ?thesis by (simp add: g_def)
qed

lemma reduced_coprime:
  fixes r d :: int
  assumes "0 < d"
  shows "coprime (r div gcd r d) (d div gcd r d)"
  using assms by (intro div_gcd_coprime) auto

subsection \<open>Price lots to number\<close>

text \<open>
  C7. For a price lot count \<open>p\<close> (with the lot sizes of a decoded market: base lot size
  positive, quote lot size non-negative), \<open>priceLotsToNumber p\<close> is computed from the exact
  integers \<open>n = p * quoteLotSize * 10^baseDecimals\<close> and \<open>d = baseLotSize * 10^quoteDecimals\<close>:
  the integer quotient \<open>n div d\<close> plus the remainder fraction \<open>(n mod d) / d\<close> with numerator
  and denominator divided exactly by their GCD (the reduced parts are coprime), and only the
  three reduced integers are converted to numbers. The exact value of the sum is \<open>n / d\<close>.
\<close>

theorem priceLotsToNumber_exact_rational:
  assumes "0 \<le> p" "0 \<le> quoteLotSize (decoded m)" "0 < baseLotSize (decoded m)"
  shows "let n = p * quoteLotSize (decoded m) * 10 ^ baseSplTokenDecimals m;
             d = baseLotSize (decoded m) * 10 ^ quoteSplTokenDecimals m;
             r = n mod d;
             g = gcd r d
         in priceLotsToNumber m p =
              do { a \<leftarrow> BN_toNumber (n div d);
                   b \<leftarrow> BN_toNumber (r div g);
                   c \<leftarrow> BN_toNumber (d div g);
                   Some (a + b / c) }
            \<and> coprime (r div g) (d div g)
            \<and> (of_int (n div d) + of_int (r div g) / of_int (d div g) :: rat)
                = of_int n / of_int d"
proof -
  define n where "n = p * quoteLotSize (decoded m) * 10 ^ baseSplTokenDecimals m"
  define d where "d = baseLotSize (decoded m) * 10 ^ quoteSplTokenDecimals m"
  have n0: "0 \<le> n" using assms by (simp add: n_def)
  have d0: "0 < d" using assms by (simp add: d_def)
  have 1: "priceLotsToNumber m p = divideBnToNumber n d"
    by (simp add: priceLotsToNumber_def n_def d_def baseSplTokenMultiplier_def
        quoteSplTokenMultiplier_def)
  show ?thesis
    unfolding Let_def n_def [symmetric] d_def [symmetric] 1
    using divideBnToNumber_nonneg [OF n0 d0] reduced_coprime [OF d0, of "n mod d"]
      reduced_fraction_exact [OF d0, of n]
    by simp
qed

theorem priceLotsToNumber_exact_rational_witness:
  "priceLotsToNumber market_lot2 3 = Some (3 / 2) \<and> coprime (1::int) 2"
proof -
  have h: "(0::int) \<le> 3" "0 \<le> quoteLotSize (decoded market_lot2)"
    "0 < baseLotSize (decoded market_lot2)"
    by (simp_all add: market_lot2_def)
  show ?thesis
    using priceLotsToNumber_exact_rational [OF h]
    by (simp add: market_lot2_def BN_toNumber_def)
qed

subsection \<open>Size to lots\<close>

text \<open>
  C3, as stated, fails: \<^verbatim>\<open>Math.round\<close> rounds the native amount to the nearest integer
  before the division by the lot size. With lot size 1 and 0 decimals the size \<open>3/2\<close>, whose
  product with \<open>10^0\<close> is exact, becomes 2 lots, while \<open>\<lfloor>3/2 * 10^0 / 1\<rfloor> = 1\<close>.
\<close>

theorem baseSizeNumberToLots_counterexample:
  "baseSizeNumberToLots exact_product market_unit (3 / 2) = Some 2
   \<and> \<lfloor>(3 / 2 :: rat) * 10 ^ baseSplTokenDecimals market_unit
        / of_int (baseLotSize (decoded market_unit))\<rfloor> = 1
   \<and> baseSizeNumberToLots exact_product market_unit (3 / 2)
       \<noteq> Some \<lfloor>(3 / 2 :: rat) * 10 ^ baseSplTokenDecimals market_unit
                / of_int (baseLotSize (decoded market_unit))\<rfloor>"
proof -
  have "\<lfloor>(3 / 2 :: rat)\<rfloor> = 1" by (rule floor_unique) simp_all
  then show ?thesis
    by (simp add: baseSizeNumberToLots_def exact_product_def market_unit_def BN_new_def
        Math_round_def BN_div_def)
qed

lemma Math_round_25: "Math_round (5 / 2 * 10 ^ 1) = 25"
  by (rule Math_round_eqI) simp_all

text \<open>
  C3, amended. Let \<open>p\<close> be the double that \<^verbatim>\<open>size * Math.pow(10, decimals)\<close> evaluates to.
  For a positive lot size, \<open>p \<ge> 0\<close> and \<open>Math.round p < 2^53\<close>, \<open>baseSizeNumberToLots\<close>
  returns \<open>\<lfloor>Math.round p / baseLotSize\<rfloor>\<close>: the rounded native amount, truncated to whole
  lots. Where the double product is the exact product and an integer, this is
  \<open>\<lfloor>s * 10^decimals / baseLotSize\<rfloor>\<close>.
\<close>

theorem baseSizeNumberToLots_floor_of_rounded:
  assumes "0 < baseLotSize (decoded m)"
    and "0 \<le> mul_pow_ten s (baseSplTokenDecimals m)"
    and "Math_round (mul_pow_ten s (baseSplTokenDecimals m)) < 2 ^ 53"
  shows "baseSizeNumberToLots mul_pow_ten m s =
           Some \<lfloor>(of_int (Math_round (mul_pow_ten s (baseSplTokenDecimals m))) :: rat)
                   / of_int (baseLotSize (decoded m))\<rfloor>
         \<and> (mul_pow_ten s (baseSplTokenDecimals m) = s * 10 ^ baseSplTokenDecimals m
              \<and> s * 10 ^ baseSplTokenDecimals m \<in> \<int> \<longrightarrow>
              baseSizeNumberToLots mul_pow_ten m s =
                Some \<lfloor>s * 10 ^ baseSplTokenDecimals m / of_int (baseLotSize (decoded m))\<rfloor>)"
proof -
  define n where "n = Math_round (mul_pow_ten s (baseSplTokenDecimals m))"
  have n0: "0 \<le> n" unfolding n_def using assms(2) by (rule Math_round_nonneg)
  have "baseSizeNumberToLots mul_pow_ten m s = BN_div n (baseLotSize (decoded m))"
    using assms(3) n0 by (simp add: baseSizeNumberToLots_def BN_new_def n_def)
  also have "\<dots> = Some (n div baseLotSize (decoded m))"
    using n0 assms(1) by (rule BN_div_nonneg)
  also have "n div baseLotSize (decoded m)
      = \<lfloor>(of_int n :: rat) / of_int (baseLotSize (decoded m))\<rfloor>"
    by (simp add: floor_divide_of_int_eq)
  finally have 1: "baseSizeNumberToLots mul_pow_ten m s
      = Some \<lfloor>(of_int n :: rat) / of_int (baseLotSize (decoded m))\<rfloor>" .
  have 2: "(of_int n :: rat) = s * 10 ^ baseSplTokenDecimals m"
    if "mul_pow_ten s (baseSplTokenDecimals m) = s * 10 ^ baseSplTokenDecimals m"
      "s * 10 ^ baseSplTokenDecimals m \<in> \<int>"
    using that Math_round_int [of "s * 10 ^ baseSplTokenDecimals m"] by (simp add: n_def)
  show ?thesis using 1 2 by (auto simp: n_def)
qed

theorem baseSizeNumberToLots_floor_of_rounded_witness:
  "baseSizeNumberToLots exact_product market_lot3 (5 / 2) = Some 8
   \<and> exact_product (5 / 2) 1 = 5 / 2 * 10 ^ 1 \<and> (5 / 2 :: rat) * 10 ^ 1 \<in> \<int>"
proof -
  have r: "Math_round (exact_product (5 / 2) (baseSplTokenDecimals market_lot3)) = 25"
    using Math_round_25 by (simp add: market_lot3_def exact_product_def)
  have h: "0 < baseLotSize (decoded market_lot3)"
    "0 \<le> exact_product (5 / 2) (baseSplTokenDecimals market_lot3)"
    "Math_round (exact_product (5 / 2) (baseSplTokenDecimals market_lot3)) < 2 ^ 53"
    using r by (simp_all add: market_lot3_def exact_product_def)
  have f: "\<lfloor>(25 :: rat) / 3\<rfloor> = 8" by (rule floor_unique) simp_all
  have "baseSizeNumberToLots exact_product market_lot3 (5 / 2)
      = Some \<lfloor>(of_int (Math_round (exact_product (5 / 2)
                   (baseSplTokenDecimals market_lot3))) :: rat)
                / of_int (baseLotSize (decoded market_lot3))\<rfloor>"
    using baseSizeNumberToLots_floor_of_rounded [where mul_pow_ten = exact_product and m = market_lot3 and s = "5 / 2", OF h] by simp
  also have "\<dots> = Some 8" unfolding r using f by (simp add: market_lot3_def)
  finally show ?thesis by (simp add: exact_product_def)
qed

text \<open>
  The rounding of the product itself takes part. The double nearest to 0.15 is
  \<open>5404319552844595 / 2^55\<close>; its exact product with 10 is \<open>2^-54\<close> below \<open>3/2\<close>, nearer
  than half the distance \<open>2^-52\<close> between the doubles around \<open>3/2\<close>. So the double product
  is \<open>3/2\<close>, and with 1 decimal and lot size 1 the size becomes 2 lots.
\<close>

lemma double_015_product_nearest:
  "(5404319552844595 / 2 ^ 55 :: rat) * 10 ^ 1 - 3 / 2 = - (1 / 2 ^ 54)"
  by simp

lemma Math_round_3_2: "Math_round (3 / 2) = 2"
  by (rule Math_round_eqI) simp_all

lemma baseSizeNumberToLots_double_015:
  assumes "mul_pow_ten (5404319552844595 / 2 ^ 55) 1 = 3 / 2"
  shows "baseSizeNumberToLots mul_pow_ten market_dec1 (5404319552844595 / 2 ^ 55) = Some 2"
proof -
  have "baseSizeNumberToLots mul_pow_ten market_dec1 (5404319552844595 / 2 ^ 55)
      = do { native \<leftarrow> BN_new (Math_round (mul_pow_ten (5404319552844595 / 2 ^ 55) 1));
             BN_div native 1 }"
    unfolding baseSizeNumberToLots_def by (simp only: market_dec1_def Market.simps decoded_market.simps)
  also have "\<dots> = do { native \<leftarrow> BN_new 2; BN_div native 1 }"
    unfolding assms Math_round_3_2 ..
  also have "\<dots> = Some 2" by (simp add: BN_new_def BN_div_def)
  finally show ?thesis .
qed

subsection \<open>Size to lots and back\<close>




subsection \<open>Slab layout\<close>

lemma SLAB_HEADER_span: "struct_span SLAB_HEADER_LAYOUT = 32"
  by (simp add: struct_span_def SLAB_HEADER_LAYOUT_def)

lemma SLAB_HEADER_offsetOf_bumpIndex: "struct_offsetOf SLAB_HEADER_LAYOUT ''bumpIndex'' = Some 0"
  by (simp add: SLAB_HEADER_LAYOUT_def)

text \<open>
  C6, as stated, fails: the header has five \<open>u32\<close> fields, not four, and three 4-byte
  spacers, not two.
\<close>

theorem SLAB_HEADER_LAYOUT_counterexample:
  "length [name. u32 name \<leftarrow> SLAB_HEADER_LAYOUT] \<noteq> 4
   \<and> length [n. zeros n \<leftarrow> SLAB_HEADER_LAYOUT] \<noteq> 2"
  by (simp add: SLAB_HEADER_LAYOUT_def)

text \<open>
  C6, amended. The slab header consists of the five \<open>u32\<close> fields \<open>bumpIndex\<close>,
  \<open>freeListLen\<close>, \<open>freeListHead\<close>, \<open>root\<close> and \<open>leafCount\<close>, in this order, with three 4-byte
  zero spacers (after \<open>bumpIndex\<close>, after \<open>freeListLen\<close> and after \<open>leafCount\<close>): 32 bytes
  before the node array, the named fields at offsets 0, 8, 16, 20 and 24.
\<close>

theorem SLAB_HEADER_LAYOUT_fields:
  "[name. u32 name \<leftarrow> SLAB_HEADER_LAYOUT]
     = [''bumpIndex'', ''freeListLen'', ''freeListHead'', ''root'', ''leafCount'']
   \<and> [n. zeros n \<leftarrow> SLAB_HEADER_LAYOUT] = [4, 4, 4]
   \<and> struct_span SLAB_HEADER_LAYOUT = 32
   \<and> map (struct_offsetOf SLAB_HEADER_LAYOUT)
        [''bumpIndex'', ''freeListLen'', ''freeListHead'', ''root'', ''leafCount'']
     = [Some 0, Some 8, Some 16, Some 20, Some 24]"
  by (simp add: SLAB_HEADER_LAYOUT_def struct_span_def)

lemma seq_decode_length: "seq_decode elt sp n b off = Some xs \<Longrightarrow> length xs = n"
  by (induction n arbitrary: off xs) (auto split: bind_splits)

lemma struct_decode_bumpIndex:
  "struct_decode SLAB_HEADER_LAYOUT b off = Some h \<Longrightarrow>
   map_of h ''bumpIndex'' = uint_decode 4 b off"
  by (auto simp: SLAB_HEADER_LAYOUT_def split: bind_splits)

text \<open>Reading inside a window of the buffer.\<close>

lemma take_drop_window:
  "r + m \<le> k \<Longrightarrow> take m (drop r (take k xs)) = take m (drop r xs)"
  by (simp add: drop_take min_def)

lemma window_bytes:
  "r + m \<le> k \<Longrightarrow> take m (drop (off + r) b) = take m (drop r (take k (drop off b)))"
  by (simp add: take_drop_window add.commute)

lemma uint_decode_window:
  assumes "r + m \<le> k" "0 < m"
  shows "uint_decode m b (off + r) = uint_decode m (take k (drop off b)) r"
proof -
  have "off + r + m \<le> length b \<longleftrightarrow> r + m \<le> length (take k (drop off b))"
    using assms by auto
  then show ?thesis
    using window_bytes [OF assms(1), of off b]
    by (simp add: uint_decode_def read_bytes_def)
qed

lemma blob_decode_window:
  "r + m \<le> k \<Longrightarrow> blob_decode m b (off + r) = blob_decode m (take k (drop off b)) r"
  unfolding blob_decode_def by (rule window_bytes)

lemma reads_span_window:
  assumes "reads_span m d" "r + m \<le> k"
  shows "d b (off + r) = d (take k (drop off b)) r"
  using assms(1) window_bytes [OF assms(2), of off b] unfolding reads_span_def by blast

lemma struct_span_Cons: "struct_span (f # fs) = field_span f + struct_span fs"
  by (simp add: struct_span_def)

lemma struct_decode_window:
  "r + struct_span fs \<le> k \<Longrightarrow>
   struct_decode fs b (off + r) = struct_decode fs (take k (drop off b)) r"
proof (induction fs arbitrary: r)
  case Nil
  then show ?case by simp
next
  case (Cons f fs)
  show ?case
  proof (cases f)
    case (u32 name)
    have 1: "uint_decode 4 b (off + r) = uint_decode 4 (take k (drop off b)) r"
      using Cons.prems u32 by (intro uint_decode_window) (simp_all add: struct_span_Cons)
    have 2: "struct_decode fs b (off + (r + 4)) = struct_decode fs (take k (drop off b)) (r + 4)"
      using Cons.prems u32 by (intro Cons.IH) (simp add: struct_span_Cons)
    show ?thesis using 1 2 u32 by (simp add: add.assoc)
  next
    case (zeros n)
    have "struct_decode fs b (off + (r + n)) = struct_decode fs (take k (drop off b)) (r + n)"
      using Cons.prems zeros by (intro Cons.IH) (simp add: struct_span_Cons)
    then show ?thesis using zeros by (simp add: add.assoc)
  qed
qed

lemma SLAB_NODE_LAYOUT_decode_window:
  assumes L: "layout_reads_spans L" and k: "r + 64 \<le> k"
  shows "SLAB_NODE_LAYOUT_decode L b (off + r)
         = SLAB_NODE_LAYOUT_decode L (take k (drop off b)) r"
proof -
  let ?w = "take k (drop off b)"
  have u: "uint_decode m b (off + r + c) = uint_decode m ?w (r + c)"
    if "c + m \<le> 64" "0 < m" for c m
    using k that uint_decode_window [of "r + c" m k b off] by (simp add: add.assoc)
  have d: "d b (off + r + c) = d ?w (r + c)"
    if "reads_span m d" "c + m \<le> 64" for c m and d :: "buffer \<Rightarrow> nat \<Rightarrow> int option"
    using k that reads_span_window [of m d "r + c" k b off] by (simp add: add.assoc)
  have p: "d b (off + r + c) = d ?w (r + c)"
    if "reads_span m d" "c + m \<le> 64" for c m and d :: "buffer \<Rightarrow> nat \<Rightarrow> buffer option"
    using k that reads_span_window [of m d "r + c" k b off] by (simp add: add.assoc)
  have e0: "uint_decode 4 b (off + r) = uint_decode 4 ?w r"
    using u [of 0 4] by simp
  have e1: "uint_decode 4 b (off + r + 4) = uint_decode 4 ?w (r + 4)"
    and e2: "uint_decode 4 b (off + r + 24) = uint_decode 4 ?w (r + 24)"
    and e3: "uint_decode 4 b (off + r + 28) = uint_decode 4 ?w (r + 28)"
    and e4: "uint_decode 1 b (off + r + 4) = uint_decode 1 ?w (r + 4)"
    by (rule u; simp)+
  have e5: "u128 L b (off + r + 8) = u128 L ?w (r + 8)"
    and e6: "u64 L b (off + r + 56) = u64 L ?w (r + 56)"
    using L unfolding layout_reads_spans_def by (auto intro: d)
  have e7: "publicKeyLayout L b (off + r + 24) = publicKeyLayout L ?w (r + 24)"
    using L unfolding layout_reads_spans_def by (auto intro: p)
  have e8: "blob_decode 60 b (off + r + 4) = blob_decode 60 ?w (r + 4)"
    using k blob_decode_window [of "r + 4" 60 k b off] by (simp add: add.assoc)
  show ?thesis
    unfolding SLAB_NODE_LAYOUT_decode_def e0 e1 e2 e3 e4 e5 e6 e7 e8 ..
qed

lemma seq_decode_window:
  assumes L: "layout_reads_spans L"
  shows "r + 64 * n \<le> k \<Longrightarrow>
     seq_decode (SLAB_NODE_LAYOUT_decode L) 64 n b (off + r)
     = seq_decode (SLAB_NODE_LAYOUT_decode L) 64 n (take k (drop off b)) r"
proof (induction n arbitrary: r)
  case 0
  then show ?case by simp
next
  case (Suc n)
  have 1: "SLAB_NODE_LAYOUT_decode L b (off + r)
      = SLAB_NODE_LAYOUT_decode L (take k (drop off b)) r"
    using Suc.prems by (intro SLAB_NODE_LAYOUT_decode_window [OF L]) simp
  have 2: "seq_decode (SLAB_NODE_LAYOUT_decode L) 64 n b (off + (r + 64))
      = seq_decode (SLAB_NODE_LAYOUT_decode L) 64 n (take k (drop off b)) (r + 64)"
    using Suc.prems by (intro Suc.IH) simp
  show ?case using 1 2 by (simp add: add.assoc)
qed

lemma SLAB_LAYOUT_decode_eq:
  "SLAB_LAYOUT_decode L b off = do {
     hdr \<leftarrow> struct_decode SLAB_HEADER_LAYOUT b off;
     count \<leftarrow> uint_decode 4 b off;
     ns \<leftarrow> seq_decode (SLAB_NODE_LAYOUT_decode L) 64 count b (off + 32);
     Some \<lparr>header = hdr, nodes = ns\<rparr> }"
  by (simp add: SLAB_LAYOUT_decode_def SLAB_HEADER_span SLAB_HEADER_offsetOf_bumpIndex)

lemma SLAB_LAYOUT_decode_window:
  assumes L: "layout_reads_spans L" and n: "uint_decode 4 b off = Some n"
  shows "SLAB_LAYOUT_decode L b off
         = SLAB_LAYOUT_decode L (take (32 + 64 * n) (drop off b)) 0"
proof -
  let ?k = "32 + 64 * n"
  let ?w = "take ?k (drop off b)"
  have h: "struct_decode SLAB_HEADER_LAYOUT b off = struct_decode SLAB_HEADER_LAYOUT ?w 0"
    using struct_decode_window [of 0 SLAB_HEADER_LAYOUT ?k b off]
    by (simp add: SLAB_HEADER_span)
  have c: "uint_decode 4 b off = uint_decode 4 ?w 0"
    using uint_decode_window [of 0 4 ?k b off] by simp
  have s: "seq_decode (SLAB_NODE_LAYOUT_decode L) 64 n b (off + 32)
      = seq_decode (SLAB_NODE_LAYOUT_decode L) 64 n ?w 32"
    by (rule seq_decode_window [OF L]) simp
  have c': "uint_decode 4 ?w 0 = Some n" using c n by simp
  show ?thesis
    unfolding SLAB_LAYOUT_decode_eq [of L b off] SLAB_LAYOUT_decode_eq [of L ?w 0] h n c'
    using s by simp
qed

lemma uint_decode_total: "off + m \<le> length b \<Longrightarrow> \<exists>v. uint_decode m b off = Some v"
  by (simp add: uint_decode_def read_bytes_def)

lemma struct_decode_total:
  "off + struct_span fs \<le> length b \<Longrightarrow> \<exists>h. struct_decode fs b off = Some h"
proof (induction fs arbitrary: off)
  case Nil
  then show ?case by simp
next
  case (Cons f fs)
  show ?case
  proof (cases f)
    case (u32 name)
    obtain v where v: "uint_decode 4 b off = Some v"
      using Cons.prems u32 uint_decode_total [of off 4 b] by (auto simp: struct_span_Cons)
    obtain h where h: "struct_decode fs b (off + 4) = Some h"
      using Cons.prems u32 Cons.IH [of "off + 4"] by (auto simp: struct_span_Cons)
    show ?thesis using v h u32 by simp
  next
    case (zeros n)
    then show ?thesis using Cons.prems Cons.IH [of "off + n"] by (auto simp: struct_span_Cons)
  qed
qed

lemma SLAB_NODE_LAYOUT_decode_total:
  assumes L: "layout_total L" and len: "off + 64 \<le> length b"
  shows "\<exists>x. SLAB_NODE_LAYOUT_decode L b off = Some x"
proof -
  have u: "\<exists>v. uint_decode m b (off + c) = Some v" if "c + m \<le> 64" for c m
    using len that by (intro uint_decode_total) simp
  obtain tag where t: "uint_decode 4 b off = Some tag" using u [of 0 4] by auto
  obtain pl c0 c1 os nxt where r:
    "uint_decode 4 b (off + 4) = Some pl" "uint_decode 4 b (off + 24) = Some c0"
    "uint_decode 4 b (off + 28) = Some c1" "uint_decode 1 b (off + 4) = Some os"
    "uint_decode 4 b (off + 4) = Some nxt"
    using u [of 4 4] u [of 24 4] u [of 28 4] u [of 4 1] by auto
  obtain k ow q where l: "u128 L b (off + 8) = Some k" "publicKeyLayout L b (off + 24) = Some ow"
    "u64 L b (off + 56) = Some q"
  proof -
    have "u128 L b (off + 8) \<noteq> None" "publicKeyLayout L b (off + 24) \<noteq> None"
      "u64 L b (off + 56) \<noteq> None"
      using L len unfolding layout_total_def total_on_span_def by auto
    then show ?thesis using that by auto
  qed
  show ?thesis
    unfolding SLAB_NODE_LAYOUT_decode_def t using r l by simp
qed

lemma seq_decode_total:
  assumes L: "layout_total L"
  shows "off + 64 * n \<le> length b \<Longrightarrow>
         \<exists>xs. seq_decode (SLAB_NODE_LAYOUT_decode L) 64 n b off = Some xs"
proof (induction n arbitrary: off)
  case 0
  then show ?case by simp
next
  case (Suc n)
  obtain x where x: "SLAB_NODE_LAYOUT_decode L b off = Some x"
    using Suc.prems SLAB_NODE_LAYOUT_decode_total [OF L, of off b] by auto
  obtain xs where xs: "seq_decode (SLAB_NODE_LAYOUT_decode L) 64 n b (off + 64) = Some xs"
    using Suc.prems Suc.IH [of "off + 64"] by auto
  show ?case using x xs by simp
qed

lemma SLAB_LAYOUT_decode_total:
  assumes L: "layout_total L" and n: "uint_decode 4 b off = Some n"
    and len: "off + 32 + 64 * n \<le> length b"
  shows "\<exists>s. SLAB_LAYOUT_decode L b off = Some s"
proof -
  obtain h where h: "struct_decode SLAB_HEADER_LAYOUT b off = Some h"
    using len struct_decode_total [of off SLAB_HEADER_LAYOUT b] by (auto simp: SLAB_HEADER_span)
  obtain ns where ns: "seq_decode (SLAB_NODE_LAYOUT_decode L) 64 n b (off + 32) = Some ns"
    using len seq_decode_total [OF L, of "off + 32" n b] by auto
  show ?thesis unfolding SLAB_LAYOUT_decode_eq h n using ns by simp
qed

lemma SLAB_LAYOUT_decode_count:
  assumes "SLAB_LAYOUT_decode L b off = Some s"
  shows "uint_decode 4 b off = Some (length (nodes s))
         \<and> map_of (header s) ''bumpIndex'' = Some (length (nodes s))"
  using assms struct_decode_bumpIndex [of b off]
  by (auto simp: SLAB_LAYOUT_decode_eq seq_decode_length split: bind_splits)

lemma layout_blobs_reads_spans: "layout_reads_spans layout_blobs"
  by (simp add: layout_reads_spans_def reads_span_def layout_blobs_def blob_decode_def)

lemma layout_blobs_total: "layout_total layout_blobs"
  by (simp add: layout_total_def total_on_span_def layout_blobs_def)

lemma le_nat_zeros: "le_nat (replicate n 0) = 0"
  by (induction n) simp_all

lemma SLAB_LAYOUT_decode_empty:
  "SLAB_LAYOUT_decode L slab_bytes_empty 0 =
     Some \<lparr>header = [(''bumpIndex'', 0), (''freeListLen'', 0), (''freeListHead'', 0),
                     (''root'', 0), (''leafCount'', 0)],
           nodes = []\<rparr>"
  by (simp add: SLAB_LAYOUT_decode_eq slab_bytes_empty_def
      SLAB_HEADER_LAYOUT_def uint_decode_def read_bytes_def le_nat_zeros)

lemma SLAB_LAYOUT_decode_one:
  "SLAB_LAYOUT_decode L slab_bytes_one 0 =
     Some \<lparr>header = [(''bumpIndex'', 1), (''freeListLen'', 0), (''freeListHead'', 0),
                     (''root'', 0), (''leafCount'', 0)],
           nodes = [uninitialized]\<rparr>"
  by (simp add: SLAB_LAYOUT_decode_eq slab_bytes_one_def
      SLAB_HEADER_LAYOUT_def uint_decode_def read_bytes_def SLAB_NODE_LAYOUT_decode_def
      le_nat_zeros)

text \<open>
  A header is decoded from its named fields alone: the bytes of the spacers are not read,
  and the last spacer need not be there. A node with an unregistered tag is decoded from
  the bytes of the blob that are there.
\<close>

lemma SLAB_LAYOUT_decode_short_header:
  "SLAB_LAYOUT_decode L slab_bytes_short_header 0 =
     Some \<lparr>header = [(''bumpIndex'', 0), (''freeListLen'', 0), (''freeListHead'', 0),
                     (''root'', 0), (''leafCount'', 0)],
           nodes = []\<rparr>"
  by (simp add: SLAB_LAYOUT_decode_eq slab_bytes_short_header_def
      SLAB_HEADER_LAYOUT_def uint_decode_def read_bytes_def le_nat_zeros)

lemma SLAB_LAYOUT_decode_short_node:
  "SLAB_LAYOUT_decode L slab_bytes_short_node 0 =
     Some \<lparr>header = [(''bumpIndex'', 1), (''freeListLen'', 0), (''freeListHead'', 0),
                     (''root'', 0), (''leafCount'', 0)],
           nodes = [otherNode 9 [5, 6]]\<rparr>"
  by (simp add: SLAB_LAYOUT_decode_eq slab_bytes_short_node_def
      SLAB_HEADER_LAYOUT_def uint_decode_def read_bytes_def SLAB_NODE_LAYOUT_decode_def
      blob_decode_def le_nat_zeros)

text \<open>
  C2, as stated, fails: a zeroed slab with 64 bytes after the header (room for one node)
  decodes to no node at all, because its \<open>bumpIndex\<close> is 0.
\<close>

theorem SLAB_LAYOUT_node_count_counterexample:
  "SLAB_LAYOUT_decode layout_blobs slab_bytes_empty 0 =
     Some \<lparr>header = [(''bumpIndex'', 0), (''freeListLen'', 0), (''freeListHead'', 0),
                     (''root'', 0), (''leafCount'', 0)],
           nodes = []\<rparr>
   \<and> (length slab_bytes_empty - struct_span SLAB_HEADER_LAYOUT) div 64 = 1
   \<and> length ([] :: slabNode list)
       \<noteq> (length slab_bytes_empty - struct_span SLAB_HEADER_LAYOUT) div 64"
  using SLAB_LAYOUT_decode_empty [of layout_blobs]
  by (simp add: slab_bytes_empty_def SLAB_HEADER_span)


text \<open>
  C2, amended. The number of 64-byte nodes decoded after the header is the header's
  \<open>bumpIndex\<close> field \<open>n\<close> (the \<open>u32\<close> at the start of the slab, read a second time through
  the offset layout), not the remaining buffer length. The bytes after the first \<open>n\<close> nodes
  are not read: decoding the buffer gives what decoding the first \<open>32 + 64 n\<close> bytes of the
  slab alone gives, be it a slab or a failure; and decoding succeeds when these bytes are
  all in the buffer. (The absent layouts of the key, owner and quantity fields are taken to
  read only their own spans and to decode spans that lie inside the buffer.)
\<close>

theorem SLAB_LAYOUT_node_count:
  assumes "uint_decode 4 b off = Some n"
  shows "(\<forall>s. SLAB_LAYOUT_decode L b off = Some s \<longrightarrow>
            length (nodes s) = n \<and> map_of (header s) ''bumpIndex'' = Some n)
         \<and> (layout_reads_spans L \<longrightarrow>
              SLAB_LAYOUT_decode L b off
                = SLAB_LAYOUT_decode L (take (32 + 64 * n) (drop off b)) 0)
         \<and> (layout_total L \<and> off + 32 + 64 * n \<le> length b \<longrightarrow>
              (\<exists>s. SLAB_LAYOUT_decode L b off = Some s))"
proof (intro conjI allI impI)
  fix s
  assume "SLAB_LAYOUT_decode L b off = Some s"
  from SLAB_LAYOUT_decode_count [OF this] assms
  show "length (nodes s) = n" and "map_of (header s) ''bumpIndex'' = Some n"
    by simp_all
next
  assume "layout_reads_spans L"
  then show "SLAB_LAYOUT_decode L b off
      = SLAB_LAYOUT_decode L (take (32 + 64 * n) (drop off b)) 0"
    using assms by (rule SLAB_LAYOUT_decode_window)
next
  assume "layout_total L \<and> off + 32 + 64 * n \<le> length b"
  then show "\<exists>s. SLAB_LAYOUT_decode L b off = Some s"
    using assms SLAB_LAYOUT_decode_total [of L b off n] by blast
qed


theorem SLAB_LAYOUT_node_count_witness:
  "uint_decode 4 slab_bytes_one 0 = Some 1
   \<and> (length slab_bytes_one - struct_span SLAB_HEADER_LAYOUT) div 64 = 2
   \<and> SLAB_LAYOUT_decode layout_blobs slab_bytes_one 0 =
       Some \<lparr>header = [(''bumpIndex'', 1), (''freeListLen'', 0), (''freeListHead'', 0),
                       (''root'', 0), (''leafCount'', 0)],
             nodes = [uninitialized]\<rparr>
   \<and> SLAB_LAYOUT_decode layout_blobs (take 96 slab_bytes_one) 0 =
       SLAB_LAYOUT_decode layout_blobs slab_bytes_one 0"
proof -
  have n: "uint_decode 4 slab_bytes_one 0 = Some 1"
    by (simp add: uint_decode_def read_bytes_def slab_bytes_one_def)
  have len: "0 + 32 + 64 * 1 \<le> length slab_bytes_one"
    by (simp add: slab_bytes_one_def)
  note t = SLAB_LAYOUT_node_count [OF n, of layout_blobs]
  have w: "SLAB_LAYOUT_decode layout_blobs slab_bytes_one 0
      = SLAB_LAYOUT_decode layout_blobs (take (32 + 64 * 1) (drop 0 slab_bytes_one)) 0"
    using t layout_blobs_reads_spans by blast
  have "\<exists>s. SLAB_LAYOUT_decode layout_blobs slab_bytes_one 0 = Some s"
    using t layout_blobs_total len by blast
  then obtain s where s: "SLAB_LAYOUT_decode layout_blobs slab_bytes_one 0 = Some s" ..
  have c: "length (nodes s) = 1" using t s by blast
  have e: "(length slab_bytes_one - struct_span SLAB_HEADER_LAYOUT) div 64 = 2"
    by (simp add: SLAB_HEADER_span slab_bytes_one_def)
  have w': "SLAB_LAYOUT_decode layout_blobs (take 96 slab_bytes_one) 0
      = SLAB_LAYOUT_decode layout_blobs slab_bytes_one 0"
    using w by simp
  show ?thesis
    using n e w' SLAB_LAYOUT_decode_one [of layout_blobs] by (simp only: simp_thms)
qed

subsection \<open>Price levels\<close>

lemma priceLevels_single: "priceLevels [(p, q)] = [(p, q)]"
  by simp

lemma priceLevels_same: "priceLevels ((p, a) # (p, b) # xs) = priceLevels ((p, a + b) # xs)"
  by simp

lemma priceLevels_diff:
  "p \<noteq> p' \<Longrightarrow> priceLevels ((p, a) # (p', b) # xs) = (p, a) # priceLevels ((p', b) # xs)"
  by simp

lemma priceLevels_prices: "map fst (priceLevels xs) = remdups_adj (map fst xs)"
proof (induction xs rule: priceLevels.induct)
  case 1
  then show ?case by simp
next
  case (2 p q xs)
  have "remdups_adj (p # map fst xs) = p # remdups_adj (map fst (dropWhile (\<lambda>x. fst x = p) xs))"
  proof (induction xs)
    case Nil
    then show ?case by simp
  next
    case (Cons y ys)
    then show ?case by (cases ys) auto
  qed
  with 2 show ?case by simp
qed

lemma leaf_at_SomeD:
  "leaf_at ns i = Some (k, q) \<Longrightarrow> i < length ns \<and> key (ns ! i) = k \<and> quantity (ns ! i) = q"
  by (auto simp: leaf_at_def split: if_splits slabNode.splits)

lemma leaf_at_iadd_same:
  "leaf_at ns j = Some (k, q0) \<Longrightarrow> leaf_at (quantity_iadd ns j q) j = Some (k, q0 + q)"
  by (auto simp: leaf_at_def quantity_iadd_def split: if_splits slabNode.splits)

lemma leaf_at_iadd_other:
  "i \<noteq> j \<Longrightarrow> leaf_at (quantity_iadd ns j q) i = leaf_at ns i"
  by (auto simp: leaf_at_def quantity_iadd_def split: if_splits slabNode.splits)

lemma leaf_at_iadd_None:
  "leaf_at (quantity_iadd ns j q) i = None \<longleftrightarrow> leaf_at ns i = None"
  by (cases "i = j") (auto simp: leaf_at_def quantity_iadd_def split: if_splits slabNode.splits)

lemma leaf_level_iadd_other:
  "i \<noteq> j \<Longrightarrow> leaf_level (quantity_iadd ns j q) i = leaf_level ns i"
  by (auto simp: leaf_level_def quantity_iadd_def split: if_splits slabNode.splits)

lemma leaf_level_leaf_at:
  "leaf_at ns i = Some (k, q) \<Longrightarrow> leaf_level ns i = (getPriceFromKey k, q)"
  by (auto simp: leaf_level_def dest: leaf_at_SomeD)

declare priceLevels.simps [simp del]

lemma quantity_iadd_other:
  "a \<noteq> j \<Longrightarrow> quantity (quantity_iadd ns j q ! a) = quantity (ns ! a)"
  by (auto simp: quantity_iadd_def split: slabNode.splits)

lemma level_values_iadd:
  "j \<notin> snd ` set ls \<Longrightarrow> level_values (quantity_iadd ns j q) ls = level_values ns ls"
  unfolding level_values_def
  by (induction ls) (auto simp: quantity_iadd_other)

lemma level_values_append:
  "level_values ns (ls @ [(p, j)]) = level_values ns ls @ [(p, quantity (ns ! j))]"
  by (simp add: level_values_def)

lemma map_leaf_level_iadd:
  "j \<notin> set idx \<Longrightarrow> map (leaf_level (quantity_iadd ns j q)) idx = map (leaf_level ns) idx"
  by (induction idx) (auto simp: leaf_level_iadd_other)

lemma getL2_loop_run:
  assumes "leaf_at ns j = Some (kj, qj)"
    and "\<forall>i\<in>set idx. leaf_at ns i \<noteq> None"
    and "distinct (map snd ls @ j # idx)"
    and "int (length ls) < depth"
    and "\<forall>a\<in>snd ` set ls. leaf_at ns a \<noteq> None"
  shows "\<exists>levels' ns'.
           getL2_loop depth idx (ls @ [(getPriceFromKey kj, j)]) ns = Some (levels', ns')
           \<and> level_values ns' levels'
               = level_values ns ls
                 @ take (nat depth - length ls)
                     (priceLevels ((getPriceFromKey kj, qj) # map (leaf_level ns) idx))
           \<and> (\<forall>a\<in>snd ` set levels'. leaf_at ns' a \<noteq> None)"
  using assms
proof (induction idx arbitrary: ls j kj qj ns)
  case Nil
  have "nat depth - length ls = Suc (nat depth - length ls - 1)"
    using Nil.prems(4) by linarith
  then have "take (nat depth - length ls) [(getPriceFromKey kj, qj)] = [(getPriceFromKey kj, qj)]"
    by (metis take_Suc_Cons take_Nil)
  moreover have "quantity (ns ! j) = qj" using Nil.prems(1) by (auto dest: leaf_at_SomeD)
  ultimately show ?case
    using Nil.prems(1,5) by (simp add: level_values_append priceLevels_single)
next
  case (Cons i rest)
  let ?p = "getPriceFromKey kj"
  obtain k q where iq: "leaf_at ns i = Some (k, q)"
    using Cons.prems(2) by (cases "leaf_at ns i") auto
  have li: "leaf_level ns i = (getPriceFromKey k, q)"
    using iq by (rule leaf_level_leaf_at)
  have qj: "quantity (ns ! j) = qj" using Cons.prems(1) by (auto dest: leaf_at_SomeD)
  have dist: "j \<notin> snd ` set ls" "j \<noteq> i" "j \<notin> set rest" "i \<notin> set rest" "i \<notin> snd ` set ls"
    "distinct (map snd ls)" "distinct rest" "snd ` set ls \<inter> set rest = {}"
    using Cons.prems(3) by auto
  have pos: "nat depth - length ls = Suc (nat depth - length ls - 1)"
    using Cons.prems(4) by linarith
  show ?case
  proof (cases "?p = getPriceFromKey k")
    case True
    let ?ns2 = "quantity_iadd ns j q"
    have step: "getL2_loop depth (i # rest) (ls @ [(?p, j)]) ns
        = getL2_loop depth rest (ls @ [(?p, j)]) ?ns2"
      using iq True by simp
    have a1: "leaf_at ?ns2 j = Some (kj, qj + q)"
      using Cons.prems(1) by (rule leaf_at_iadd_same)
    have a2: "\<forall>i\<in>set rest. leaf_at ?ns2 i \<noteq> None"
      using Cons.prems(2) by (simp add: leaf_at_iadd_None)
    have a3: "distinct (map snd ls @ j # rest)"
      using Cons.prems(3) by auto
    have a5: "\<forall>a\<in>snd ` set ls. leaf_at ?ns2 a \<noteq> None"
      using Cons.prems(5) by (simp add: leaf_at_iadd_None)
    obtain levels' ns' where r:
      "getL2_loop depth rest (ls @ [(?p, j)]) ?ns2 = Some (levels', ns')"
      "level_values ns' levels' = level_values ?ns2 ls
         @ take (nat depth - length ls)
             (priceLevels ((?p, qj + q) # map (leaf_level ?ns2) rest))"
      "\<forall>a\<in>snd ` set levels'. leaf_at ns' a \<noteq> None"
      using Cons.IH [OF a1 a2 a3 Cons.prems(4) a5] by blast
    have eq: "priceLevels ((?p, qj) # map (leaf_level ns) (i # rest))
        = priceLevels ((?p, qj + q) # map (leaf_level ns) rest)"
      using True li by (simp only: list.map priceLevels_same)
    have "level_values ns' levels' = level_values ns ls
         @ take (nat depth - length ls)
             (priceLevels ((?p, qj) # map (leaf_level ns) (i # rest)))"
      unfolding eq r(2) level_values_iadd [OF dist(1)] map_leaf_level_iadd [OF dist(3)] ..
    then show ?thesis
      unfolding step using r(1,3) by blast
  next
    case False
    note diff = False
    have lvls: "priceLevels ((?p, qj) # map (leaf_level ns) (i # rest))
        = (?p, qj) # priceLevels ((getPriceFromKey k, q) # map (leaf_level ns) rest)"
      using diff li by (simp add: priceLevels_diff)
    show ?thesis
    proof (cases "int (length (ls @ [(?p, j)])) = depth")
      case True
      have step: "getL2_loop depth (i # rest) (ls @ [(?p, j)]) ns = Some (ls @ [(?p, j)], ns)"
        using iq diff True by simp
      have one: "nat depth - length ls = Suc 0" using True by simp
      have leaves: "\<forall>a\<in>snd ` set (ls @ [(?p, j)]). leaf_at ns a \<noteq> None"
        using Cons.prems(1,5) by auto
      have "level_values ns (ls @ [(?p, j)]) = level_values ns ls
           @ take (Suc 0) ((?p, qj) # priceLevels ((getPriceFromKey k, q) # map (leaf_level ns) rest))"
        using qj by (simp add: level_values_append)
      then show ?thesis
        unfolding step lvls one using leaves by blast
    next
      case False
      have step: "getL2_loop depth (i # rest) (ls @ [(?p, j)]) ns
          = getL2_loop depth rest ((ls @ [(?p, j)]) @ [(getPriceFromKey k, i)]) ns"
        using iq diff False by simp
      have a2: "\<forall>i\<in>set rest. leaf_at ns i \<noteq> None" using Cons.prems(2) by simp
      have a3: "distinct (map snd (ls @ [(?p, j)]) @ i # rest)"
        using Cons.prems(3) by auto
      have a4: "int (length (ls @ [(?p, j)])) < depth"
        using Cons.prems(4) False by simp
      have a5: "\<forall>a\<in>snd ` set (ls @ [(?p, j)]). leaf_at ns a \<noteq> None"
        using Cons.prems(1,5) by auto
      obtain levels' ns' where r:
        "getL2_loop depth rest ((ls @ [(?p, j)]) @ [(getPriceFromKey k, i)]) ns = Some (levels', ns')"
        "level_values ns' levels' = level_values ns (ls @ [(?p, j)])
           @ take (nat depth - length (ls @ [(?p, j)]))
               (priceLevels ((getPriceFromKey k, q) # map (leaf_level ns) rest))"
        "\<forall>a\<in>snd ` set levels'. leaf_at ns' a \<noteq> None"
        using Cons.IH [OF iq a2 a3 a4 a5] by blast
      have len: "nat depth - length (ls @ [(?p, j)]) = nat depth - length ls - 1"
        by simp
      have tk: "take (nat depth - length ls)
              ((?p, qj) # priceLevels ((getPriceFromKey k, q) # map (leaf_level ns) rest))
          = (?p, qj) # take (nat depth - length (ls @ [(?p, j)]))
              (priceLevels ((getPriceFromKey k, q) # map (leaf_level ns) rest))"
        unfolding len by (subst pos) (simp only: take_Suc_Cons)
      have "level_values ns' levels' = level_values ns ls
           @ take (nat depth - length ls)
               (priceLevels ((?p, qj) # map (leaf_level ns) (i # rest)))"
        unfolding lvls tk r(2) level_values_append qj by simp
      then show ?thesis
        unfolding step using r(1,3) by blast
    qed
  qed
qed

lemma getL2_loop_start:
  assumes "0 \<le> depth"
    and "distinct idx"
    and "\<forall>i\<in>set idx. leaf_at ns i \<noteq> None"
  shows "\<exists>levels' ns'.
           getL2_loop depth idx [] ns = Some (levels', ns')
           \<and> level_values ns' levels' = take (nat depth) (priceLevels (map (leaf_level ns) idx))
           \<and> (\<forall>a\<in>snd ` set levels'. leaf_at ns' a \<noteq> None)"
proof (cases idx)
  case Nil
  then show ?thesis by (simp add: level_values_def priceLevels.simps)
next
  case (Cons i rest)
  obtain k q where iq: "leaf_at ns i = Some (k, q)"
    using assms(3) Cons by (cases "leaf_at ns i") auto
  have li: "leaf_level ns i = (getPriceFromKey k, q)"
    using iq by (rule leaf_level_leaf_at)
  show ?thesis
  proof (cases "depth = 0")
    case True
    then show ?thesis using Cons iq by (simp add: level_values_def)
  next
    case False
    then have d: "int (length ([] :: (int \<times> nat) list)) < depth" using assms(1) by simp
    have step: "getL2_loop depth idx [] ns
        = getL2_loop depth rest ([] @ [(getPriceFromKey k, i)]) ns"
      using Cons iq False by simp
    have a2: "\<forall>i\<in>set rest. leaf_at ns i \<noteq> None" using assms(3) Cons by simp
    have a3: "distinct (map snd ([] :: (int \<times> nat) list) @ i # rest)"
      using assms(2) Cons by simp
    have a5: "\<forall>a\<in>snd ` set ([] :: (int \<times> nat) list). leaf_at ns a \<noteq> None" by simp
    show ?thesis
      unfolding step using getL2_loop_run [OF iq a2 a3 d a5] li Cons
      by (simp add: level_values_def)
  qed
qed

lemma level_reads:
  assumes "\<forall>a\<in>snd ` set levels. leaf_at ns a \<noteq> None"
  shows "map (\<lambda>(priceLots, j). do {
              (k, sizeLots) \<leftarrow> leaf_at ns j;
              level_of m (priceLots, sizeLots) }) levels
         = map (level_of m) (level_values ns levels)"
  using assms
proof (induction levels)
  case Nil
  then show ?case by (simp add: level_values_def)
next
  case (Cons l levels)
  obtain p j where l: "l = (p, j)" by (cases l)
  obtain k q where jq: "leaf_at ns j = Some (k, q)"
    using Cons.prems l by (cases "leaf_at ns j") auto
  have "quantity (ns ! j) = q" using jq by (auto dest: leaf_at_SomeD)
  then show ?case using Cons l jq by (simp add: level_values_def)
qed

lemma those_length: "those xs = Some ys \<Longrightarrow> length ys = length xs"
  by (induction xs arbitrary: ys) (auto split: option.splits)


text \<open>
  C1. For an order book whose traversal yields distinct leaves and for a depth \<open>d \<ge> 0\<close>,
  \<open>getL2 d\<close> walks the leaves in the order in which \<open>slab.items\<close> yields them for
  \<open>descending = isBids\<close> (descending for the bid side, ascending for the ask side), merges
  every run of consecutive leaves with the same price into one level whose size is the sum
  of their quantities, and returns the first \<open>d\<close> of these levels (all of them if there are
  fewer), each with its display-scale price and size; it never returns more than \<open>d\<close>
  levels. The call fails only when a conversion to a number fails.
\<close>

theorem getL2_price_levels:
  assumes "0 \<le> depth"
    and "distinct (items (slab ob) (isBids ob))"
    and "\<forall>i\<in>set (items (slab ob) (isBids ob)). leaf_at (nodes (slab ob)) i \<noteq> None"
  shows "map_option fst (getL2 items ob depth)
           = those (map (level_of (Orderbook.market ob))
               (take (nat depth)
                  (priceLevels (map (leaf_level (nodes (slab ob)))
                     (items (slab ob) (isBids ob))))))
         \<and> (\<forall>r. map_option fst (getL2 items ob depth) = Some r \<longrightarrow> length r \<le> nat depth)"
proof -
  let ?idx = "items (slab ob) (isBids ob)"
  let ?spec = "take (nat depth) (priceLevels (map (leaf_level (nodes (slab ob))) ?idx))"
  obtain levels' ns' where r:
    "getL2_loop depth ?idx [] (nodes (slab ob)) = Some (levels', ns')"
    "level_values ns' levels' = ?spec"
    "\<forall>a\<in>snd ` set levels'. leaf_at ns' a \<noteq> None"
    using getL2_loop_start [OF assms] by blast
  have 1: "map_option fst (getL2 items ob depth) = those (map (level_of (Orderbook.market ob)) ?spec)"
    unfolding getL2_def Let_def r(1) using level_reads [OF r(3), of "Orderbook.market ob"] r(2)
    by (cases "those (map (level_of (Orderbook.market ob)) ?spec)") simp_all
  have 2: "length r \<le> nat depth" if "map_option fst (getL2 items ob depth) = Some r" for r
    using that those_length [of "map (level_of (Orderbook.market ob)) ?spec" r] unfolding 1
    by simp
  show ?thesis using 1 2 by blast
qed

lemma items_asks: "Slab_items slab_three False = [1, 3, 4]"
  by (simp add: Slab_items_def slab_three_def eval_nat_numeral)

lemma items_bids: "Slab_items slab_three True = [4, 3, 1]"
  by (simp add: Slab_items_def slab_three_def eval_nat_numeral)

lemma leaf_levels_three:
  "leaf_level (nodes slab_three) (Suc 0) = (3, 4)"
  "leaf_level (nodes slab_three) 3 = (5, 2)"
  "leaf_level (nodes slab_three) 4 = (5, 3)"
  by (simp_all add: leaf_level_def slab_three_def getPriceFromKey_def)

lemma leaves_three:
  "leaf_at (nodes slab_three) (Suc 0) \<noteq> None"
  "leaf_at (nodes slab_three) 3 \<noteq> None"
  "leaf_at (nodes slab_three) 4 \<noteq> None"
  by (simp_all add: leaf_at_def slab_three_def)

lemma level_of_lot2:
  "level_of market_lot2 (3, 4) = Some (3 / 2, 8, 3, 4)"
  "level_of market_lot2 (5, 5) = Some (5 / 2, 10, 5, 5)"
  by (simp_all add: level_of_def market_lot2_def priceLotsToNumber_def baseSizeLotsToNumber_def
      divideBnToNumber_def BN_div_def BN_umod_def BN_gcd_def BN_toNumber_def
      baseSplTokenMultiplier_def quoteSplTokenMultiplier_def)


text \<open>
  On the slab with the orders (3, 4), (5, 2) and (5, 3): the two leaves at price 5 make one
  level of size 5; depth 1 gives the best ask, price 3, on the ask side and the best bid,
  price 5, on the bid side.
\<close>

theorem getL2_price_levels_witness:
  "map_option fst (getL2 Slab_items book_asks 2) = Some [(3 / 2, 8, 3, 4), (5 / 2, 10, 5, 5)]
   \<and> map_option fst (getL2 Slab_items book_asks 1) = Some [(3 / 2, 8, 3, 4)]
   \<and> map_option fst (getL2 Slab_items book_bids 1) = Some [(5 / 2, 10, 5, 5)]"
proof -
  have asks: "distinct (Slab_items (slab book_asks) (isBids book_asks))"
    "\<forall>i\<in>set (Slab_items (slab book_asks) (isBids book_asks)).
        leaf_at (nodes (slab book_asks)) i \<noteq> None"
    using leaves_three by (simp_all add: book_asks_def items_asks)
  have bids: "distinct (Slab_items (slab book_bids) (isBids book_bids))"
    "\<forall>i\<in>set (Slab_items (slab book_bids) (isBids book_bids)).
        leaf_at (nodes (slab book_bids)) i \<noteq> None"
    using leaves_three by (simp_all add: book_bids_def items_bids)
  have d: "(0::int) \<le> 2" "(0::int) \<le> 1" by simp_all
  have la: "priceLevels [(3, 4), (5, 2), (5, 3)] = [(3, 4), (5, 5)]"
    by (simp add: priceLevels.simps)
  have lb: "priceLevels [(5, 3), (5, 2), (3, 4)] = [(5, 5), (3, 4)]"
    by (simp add: priceLevels.simps)
  show ?thesis
    using getL2_price_levels [where items = Slab_items and ob = book_asks, OF d(1) asks]
      getL2_price_levels [where items = Slab_items and ob = book_asks, OF d(2) asks]
      getL2_price_levels [where items = Slab_items and ob = book_bids, OF d(2) bids]
    by (simp add: book_asks_def book_bids_def items_asks items_bids leaf_levels_three la lb
        level_of_lot2)
qed


subsection \<open>The call updates the slab\<close>

text \<open>
  A level keeps a reference to the quantity of the first leaf of its run and \<^verbatim>\<open>iadd\<close> adds
  in place, so the call leaves the sum in that leaf (the leaves that the traversal yields
  being the node objects of the slab). On the bid side of the slab above \<open>getL2 1\<close> returns
  5 lots at price 5 and leaves the quantity 5 in the leaf that held 3; a second call on the
  same order book then returns 7 lots.
\<close>

lemma items_bids_after: "Slab_items slab_three_after True = [4, 3, Suc 0]"
  by (simp add: Slab_items_def slab_three_after_def slab_three_def eval_nat_numeral)

lemma getL2_loop_bids_1:
  "getL2_loop 1 [4, 3, Suc 0] [] (nodes slab_three) = Some ([(5, 4)], nodes slab_three_after)"
  by (simp add: slab_three_after_def slab_three_def leaf_at_def getPriceFromKey_def
      quantity_iadd_def)

lemma leaf_at_after_4: "leaf_at (nodes slab_three_after) 4 = Some (5 * 2 ^ 64 + 2, 5)"
  by (simp add: leaf_at_def slab_three_after_def slab_three_def)

lemma slab_three_after_nodes: "slab_three\<lparr>nodes := nodes slab_three_after\<rparr> = slab_three_after"
  by (simp add: slab_three_after_def)

lemma getL2_updates_slab:
  "getL2 Slab_items book_bids 1 = Some ([(5 / 2, 10, 5, 5)], slab_three_after)"
  unfolding getL2_def book_bids_def
  by (simp add: items_bids getL2_loop_bids_1 level_of_lot2 leaf_at_after_4
      slab_three_after_nodes del: getL2_loop.simps)

lemma getL2_loop_bids_2:
  "getL2_loop 1 [4, 3, Suc 0] [] (nodes slab_three_after)
     = Some ([(5, 4)], nodes slab_three_twice)"
  by (simp add: slab_three_after_def slab_three_twice_def slab_three_def leaf_at_def
      getPriceFromKey_def quantity_iadd_def)

lemma leaf_at_twice_4: "leaf_at (nodes slab_three_twice) 4 = Some (5 * 2 ^ 64 + 2, 7)"
  by (simp add: leaf_at_def slab_three_twice_def slab_three_def)

lemma level_of_lot2_7: "level_of market_lot2 (5, 7) = Some (5 / 2, 14, 5, 7)"
  by (simp_all add: level_of_def market_lot2_def priceLotsToNumber_def baseSizeLotsToNumber_def
      divideBnToNumber_def BN_div_def BN_umod_def BN_gcd_def BN_toNumber_def
      baseSplTokenMultiplier_def quoteSplTokenMultiplier_def)

lemma getL2_again:
  "map_option fst (getL2 Slab_items (book_bids\<lparr>slab := slab_three_after\<rparr>) 1)
     = Some [(5 / 2, 14, 5, 7)]"
  unfolding getL2_def book_bids_def
  by (simp add: items_bids_after getL2_loop_bids_2 level_of_lot2_7 leaf_at_twice_4
      del: getL2_loop.simps)

subsection \<open>market.js against market.ts\<close>

lemma getL2_loop_asks_1:
  "getL2_loop 1 [Suc 0, 3, 4] [] (nodes slab_three) = Some ([(3, Suc 0)], nodes slab_three)"
  by (simp add: slab_three_def leaf_at_def getPriceFromKey_def)

lemma getL2_js_loop_asks_1:
  "getL2_js_loop None 1 [Suc 0, 3, 4] [] (nodes slab_three) = None"
  "getL2_js_loop (Some (=)) 1 [Suc 0, 3, 4] [] (nodes slab_three) = Some ([(3, Suc 0)], nodes slab_three)"
  by (simp_all add: slab_three_def leaf_at_def getPriceFromKey_def)

lemma leaf_at_three_1: "leaf_at (nodes slab_three) (Suc 0) = Some (3 * 2 ^ 64 + 1, 4)"
  by (simp add: leaf_at_def slab_three_def)


text \<open>
  C10. The two implementations of \<open>getL2\<close> should return the same levels. On the ask side of
  the slab above, with depth 1, market.ts returns the level of price 3 and size 4 lots, while
  market.js throws, whether or not a \<^verbatim>\<open>BN\<close> has a method \<^verbatim>\<open>equals\<close>.
\<close>

theorem getL2_js_differs:
  "map_option fst (getL2 Slab_items book_asks 1) = Some [(3 / 2, 8, 3, 4)]
   \<and> getL2_js None Slab_items book_asks 1 = None
   \<and> getL2_js (Some (=)) Slab_items book_asks 1 = None"
proof -
  have 1: "map_option fst (getL2 Slab_items book_asks 1) = Some [(3 / 2, 8, 3, 4)]"
    unfolding getL2_def book_asks_def
    by (simp add: items_asks getL2_loop_asks_1 leaf_at_three_1 level_of_lot2
        del: getL2_loop.simps)
  have 2: "getL2_js None Slab_items book_asks 1 = None"
    unfolding getL2_js_def book_asks_def
    by (simp add: items_asks getL2_js_loop_asks_1 del: getL2_js_loop.simps)
  have 3: "getL2_js (Some (=)) Slab_items book_asks 1 = None"
    unfolding getL2_js_def book_asks_def
    by (simp add: items_asks getL2_js_loop_asks_1 leaf_at_three_1 Market_baseLotSize_js_def
        del: getL2_js_loop.simps)
  show ?thesis using 1 2 3 by simp
qed

subsection \<open>Pool request round trip\<close>

lemma length_le_bytes: "length (le_bytes n v) = n"
  by (induction n arbitrary: v) simp_all

lemma le_nat_le_bytes: "v < 256 ^ n \<Longrightarrow> le_nat (le_bytes n v) = v"
proof (induction n arbitrary: v)
  case 0
  then show ?case by simp
next
  case (Suc n)
  have "v div 256 < 256 ^ n" using Suc.prems by (simp add: less_mult_imp_div_less mult.commute)
  then have "le_nat (le_bytes n (v div 256)) = v div 256" by (rule Suc.IH)
  moreover have "unat (of_nat (v mod 256) :: byte) = v mod 256"
    by (simp add: unat_of_nat)
  ultimately show ?case by simp
qed

lemma uint_roundtrip:
  "uint_encode n v = Some bs \<Longrightarrow> uint_parse n (bs @ rest) = Some (v, rest)"
  by (auto simp: uint_encode_def uint_parse_def length_le_bytes le_nat_le_bytes split: if_splits)

lemma uint_parse_le_bytes:
  "v < 256 ^ n \<Longrightarrow> uint_parse n (le_bytes n v @ rest) = Some (v, rest)"
  by (simp add: uint_parse_def length_le_bytes le_nat_le_bytes)

lemma u64_roundtrip:
  "u64_encode v = Some bs \<Longrightarrow> u64_decode (bs @ rest) = Some (v, rest)"
  by (auto simp: u64_encode_def u64_decode_def uint_parse_le_bytes split: if_splits)

lemma i64_roundtrip:
  assumes "i64_encode v = Some bs"
  shows "i64_decode (bs @ rest) = Some (v, rest)"
proof -
  have r: "- (2 ^ 63) \<le> v" "v < 2 ^ 63" and bs: "bs = le_bytes 8 (nat (v mod 2 ^ 64))"
    using assms by (auto simp: i64_encode_def split: if_splits)
  let ?u = "nat (v mod 2 ^ 64)"
  have u: "?u < 256 ^ 8" 
    by (simp add: nat_less_iff)
  have p: "uint_parse 8 (bs @ rest) = Some (?u, rest)"
    unfolding bs using u by (rule uint_parse_le_bytes)
  have "(if ?u < 2 ^ 63 then int ?u else int ?u - 2 ^ 64) = v"
  proof (cases "0 \<le> v")
    case True
    then have "v mod 2 ^ 64 = v" using r by simp
    then show ?thesis using True r by simp
  next
    case False
    have "v mod 2 ^ 64 = (v + 2 ^ 64) mod 2 ^ 64" by simp
    also have "\<dots> = v + 2 ^ 64" using r False by (intro mod_pos_pos_trivial) auto
    finally have m: "v mod 2 ^ 64 = v + 2 ^ 64" .
    have i: "int ?u = v + 2 ^ 64" unfolding m using r by simp
    have "(2::int) ^ 63 \<le> int ?u" unfolding i using r by simp
    then have "int (2 ^ 63) \<le> int ?u" by simp
    then have "\<not> ?u < 2 ^ 63" unfolding of_nat_le_iff by (simp only: not_less)
    then show ?thesis using i by simp
  qed
  moreover have "i64_decode (bs @ rest)
      = Some (if ?u < 2 ^ 63 then int ?u else int ?u - 2 ^ 64, rest)"
    unfolding i64_decode_def p by simp
  ultimately show ?thesis by (simp only:)
qed

lemma vec_elements_roundtrip:
  assumes "\<And>x bs rest. enc x = Some bs \<Longrightarrow> dec (bs @ rest) = Some (x, rest)"
  shows "vec_encode_elements enc xs = Some bs \<Longrightarrow>
         vec_decode_elements dec (length xs) (bs @ rest) = Some (xs, rest)"
proof (induction xs arbitrary: bs)
  case Nil
  then show ?case by simp
next
  case (Cons x xs)
  from Cons.prems obtain a b where a: "enc x = Some a"
    and b: "vec_encode_elements enc xs = Some b" and bs: "bs = a @ b"
    by (auto simp: bind_eq_Some_conv)
  have "dec (a @ b @ rest) = Some (x, b @ rest)" using a by (rule assms)
  moreover have "vec_decode_elements dec (length xs) (b @ rest) = Some (xs, rest)"
    using b by (rule Cons.IH)
  ultimately show ?case by (simp add: bs)
qed

lemma vec_roundtrip:
  assumes "\<And>x bs rest. enc x = Some bs \<Longrightarrow> dec (bs @ rest) = Some (x, rest)"
    and "vec_encode enc xs = Some bs"
  shows "vec_decode dec (bs @ rest) = Some (xs, rest)"
proof -
  from assms(2) obtain n es where n: "uint_encode 4 (length xs) = Some n"
    and es: "vec_encode_elements enc xs = Some es" and bs: "bs = n @ es"
    by (auto simp: vec_encode_def bind_eq_Some_conv)
  have "uint_parse 4 (n @ es @ rest) = Some (length xs, es @ rest)"
    using n by (rule uint_roundtrip)
  moreover have "vec_decode_elements dec (length xs) (es @ rest) = Some (xs, rest)"
    using assms(1) es by (rule vec_elements_roundtrip)
  ultimately show ?thesis by (simp add: vec_decode_def bs)
qed

lemma Basket_roundtrip:
  "Basket_encode v = Some bs \<Longrightarrow> Basket_decode (bs @ rest) = Some (v, rest)"
  unfolding Basket_encode_def Basket_decode_def
  using vec_roundtrip [of i64_encode i64_decode "quantities v" bs rest, OF i64_roundtrip]
  by simp

lemma discriminant_parse:
  "uint_parse (Suc 0) (0 # rest) = Some (0, rest)"
  "uint_parse (Suc 0) (1 # rest) = Some (1, rest)"
  "uint_parse (Suc 0) (2 # rest) = Some (2, rest)"
  by (simp_all add: uint_parse_def)

lemma PoolAction_roundtrip:
  assumes "PoolAction_encode v = Some bs"
  shows "PoolAction_decode (bs @ rest) = Some (v, rest)"
proof (cases v)
  case (create x)
  then obtain p where p: "u64_encode x = Some p" and bs: "bs = 0 # p"
    using assms by auto
  show ?thesis
    unfolding bs create PoolAction_decode_def
    using u64_roundtrip [OF p, of rest] by (simp add: discriminant_parse)
next
  case (redeem x)
  then obtain p where p: "u64_encode x = Some p" and bs: "bs = 1 # p"
    using assms by auto
  show ?thesis
    unfolding bs redeem PoolAction_decode_def
    using u64_roundtrip [OF p, of rest] by (simp add: discriminant_parse)
next
  case (swap x)
  then obtain p where p: "Basket_encode x = Some p" and bs: "bs = 2 # p"
    using assms by auto
  show ?thesis
    unfolding bs swap PoolAction_decode_def
    using Basket_roundtrip [OF p, of rest] by (simp add: discriminant_parse)
qed

lemma InitializePoolRequest_roundtrip:
  assumes "InitializePoolRequest_encode v = Some bs"
  shows "InitializePoolRequest_decode (bs @ rest) = Some (v, rest)"
proof -
  from assms obtain a b c where a: "uint_encode 1 (vaultSignerNonce v) = Some a"
    and b: "uint_encode 1 (assetsLength v) = Some b"
    and c: "uint_encode 2 (customStateLength v) = Some c" and bs: "bs = a @ b @ c"
    by (auto simp: InitializePoolRequest_encode_def bind_eq_Some_conv)
  show ?thesis
    unfolding bs InitializePoolRequest_decode_def
    using uint_roundtrip [OF a, of "b @ c @ rest"] uint_roundtrip [OF b, of "c @ rest"]
      uint_roundtrip [OF c, of rest]
    by simp
qed

lemma tag_parse:
  "uint_parse 8 (le_bytes 8 (nat POOL_REQUEST_TAG) @ rest) = Some (nat POOL_REQUEST_TAG, rest)"
  by (rule uint_parse_le_bytes) (simp add: POOL_REQUEST_TAG_def)

lemma PoolRequest_roundtrip:
  assumes "PoolRequest_encode v = Some bs"
  shows "PoolRequest_decode (bs @ rest) = Some (v, rest)"
proof -
  have t: "int (nat POOL_REQUEST_TAG) = POOL_REQUEST_TAG" by (simp add: POOL_REQUEST_TAG_def)
  show ?thesis
  proof (cases v)
    case (initialize x)
    then obtain p where p: "InitializePoolRequest_encode x = Some p"
      and bs: "bs = le_bytes 8 (nat POOL_REQUEST_TAG) @ 0 # p"
      using assms by auto
    show ?thesis
      unfolding bs initialize PoolRequest_decode_def
      using tag_parse [of "0 # p @ rest"] t InitializePoolRequest_roundtrip [OF p, of rest]
      by (simp add: discriminant_parse)
  next
    case (getBasket x)
    then obtain p where p: "PoolAction_encode x = Some p"
      and bs: "bs = le_bytes 8 (nat POOL_REQUEST_TAG) @ 1 # p"
      using assms by auto
    show ?thesis
      unfolding bs getBasket PoolRequest_decode_def
      using tag_parse [of "1 # p @ rest"] t PoolAction_roundtrip [OF p, of rest]
      by (simp add: discriminant_parse)
  next
    case (transact x)
    then obtain p where p: "PoolAction_encode x = Some p"
      and bs: "bs = le_bytes 8 (nat POOL_REQUEST_TAG) @ 2 # p"
      using assms by auto
    show ?thesis
      unfolding bs transact PoolRequest_decode_def
      using tag_parse [of "2 # p @ rest"] t PoolAction_roundtrip [OF p, of rest]
      by (simp add: discriminant_parse)
  qed
qed



lemma vec_encode_elements_i64:
  "list_all i64_valid xs \<Longrightarrow>
   \<exists>es. vec_encode_elements i64_encode xs = Some es \<and> length es = 8 * length xs"
proof (induction xs)
  case Nil
  then show ?case by simp
next
  case (Cons x xs)
  then obtain es where es: "vec_encode_elements i64_encode xs = Some es"
    "length es = 8 * length xs" by auto
  have "i64_encode x = Some (le_bytes 8 (nat (x mod 2 ^ 64)))"
    using Cons.prems by (simp add: i64_encode_def i64_valid_def)
  then show ?case using es by (simp add: length_le_bytes)
qed

lemma Basket_encode_valid:
  assumes "Basket_valid v"
  shows "\<exists>bs. Basket_encode v = Some bs \<and> length bs = 4 + 8 * length (quantities v)"
proof -
  have n: "uint_encode 4 (length (quantities v)) = Some (le_bytes 4 (length (quantities v)))"
    using assms by (simp add: Basket_valid_def uint_encode_def)
  obtain es where es: "vec_encode_elements i64_encode (quantities v) = Some es"
    "length es = 8 * length (quantities v)"
    using assms vec_encode_elements_i64 [of "quantities v"] by (auto simp: Basket_valid_def)
  show ?thesis
    unfolding Basket_encode_def vec_encode_def n es(1)
    using es(2) by (simp add: length_le_bytes)
qed

lemma u64_encode_valid:
  "u64_valid v \<Longrightarrow> \<exists>bs. u64_encode v = Some bs \<and> length bs = 8"
  by (simp add: u64_valid_def u64_encode_def length_le_bytes)

lemma PoolAction_encode_valid:
  assumes "PoolAction_valid v"
  shows "\<exists>bs. PoolAction_encode v = Some bs \<and> length bs = PoolAction_span v"
proof (cases v)
  case (create x)
  then show ?thesis using assms u64_encode_valid [of x] by auto
next
  case (redeem x)
  then show ?thesis using assms u64_encode_valid [of x] by auto
next
  case (swap x)
  then show ?thesis using assms Basket_encode_valid [of x] by auto
qed

lemma InitializePoolRequest_encode_valid:
  assumes "InitializePoolRequest_valid v"
  shows "\<exists>bs. InitializePoolRequest_encode v = Some bs \<and> length bs = 4"
proof -
  have "uint_encode 1 (vaultSignerNonce v) = Some (le_bytes 1 (vaultSignerNonce v))"
    "uint_encode 1 (assetsLength v) = Some (le_bytes 1 (assetsLength v))"
    "uint_encode 2 (customStateLength v) = Some (le_bytes 2 (customStateLength v))"
    using assms by (simp_all add: InitializePoolRequest_valid_def uint_encode_def)
  then show ?thesis
    unfolding InitializePoolRequest_encode_def by (simp add: length_le_bytes)
qed

lemma PoolRequest_encode_valid:
  assumes "PoolRequest_valid v"
  shows "\<exists>bs. PoolRequest_encode v = Some bs \<and> length bs = PoolRequest_span v"
proof (cases v)
  case (initialize x)
  then show ?thesis
    using assms InitializePoolRequest_encode_valid [of x] by (auto simp: length_le_bytes)
next
  case (getBasket x)
  then show ?thesis
    using assms PoolAction_encode_valid [of x] by (auto simp: length_le_bytes)
next
  case (transact x)
  then show ?thesis
    using assms PoolAction_encode_valid [of x] by (auto simp: length_le_bytes)
qed

text \<open>
  C9. For every \<open>PoolRequest\<close> value \<open>r\<close> (each of the \<open>initialize\<close>, \<open>getBasket\<close> and
  \<open>transact\<close> variants, with every \<open>PoolAction\<close> variant inside) whose fields are in the
  range of their layouts and whose encoding fits the buffer of 1000 bytes,
  \<open>encodePoolRequest\<close> returns the encoding, of the length that the layouts give, and
  \<open>decodePoolRequest\<close> of it returns \<open>r\<close>.
\<close>

theorem PoolRequest_encode_decode:
  assumes "PoolRequest_valid r" and "PoolRequest_span r \<le> 1000"
  shows "\<exists>bs. encodePoolRequest r = Some bs \<and> length bs = PoolRequest_span r
              \<and> decodePoolRequest bs = Some r"
proof -
  obtain bs where bs: "PoolRequest_encode r = Some bs" "length bs = PoolRequest_span r"
    using PoolRequest_encode_valid [OF assms(1)] by blast
  have e: "encodePoolRequest r = Some bs"
    using bs assms(2) by (simp add: encodePoolRequest_def)
  have "decodePoolRequest bs = Some r"
    using PoolRequest_roundtrip [OF bs(1), of "[]"] by (simp add: decodePoolRequest_def)
  with e bs(2) show ?thesis by blast
qed

lemma le_bytes_numeral:
  "le_bytes (numeral k) v = of_nat (v mod 256) # le_bytes (pred_numeral k) (v div 256)"
proof -
  have "le_bytes (Suc (pred_numeral k)) v
      = of_nat (v mod 256) # le_bytes (pred_numeral k) (v div 256)"
    by (rule le_bytes.simps)
  then show ?thesis by (simp only: numeral_eq_Suc [symmetric])
qed

lemma POOL_REQUEST_TAG_le_bytes:
  "le_bytes 8 (nat POOL_REQUEST_TAG) = [0xcf, 0xc4, 0x1c, 0xcd, 0xbd, 0x6c, 0x0a, 0x22]"
  by (simp add: POOL_REQUEST_TAG_def le_bytes_numeral)

lemma i64_encode_examples:
  "i64_encode (- 1) = Some [255, 255, 255, 255, 255, 255, 255, 255]"
  "i64_encode 2 = Some [2, 0, 0, 0, 0, 0, 0, 0]"
  by (simp_all add: i64_encode_def le_bytes_numeral)

lemma uint_encode_4_2: "uint_encode 4 (Suc (Suc 0)) = Some [2, 0, 0, 0]"
proof -
  have "uint_encode 4 2 = Some [2, 0, 0, 0]"
    by (simp add: uint_encode_def le_bytes_numeral)
  then show ?thesis by (simp only: numeral_2_eq_2)
qed

lemma encode_example:
  "encodePoolRequest (transact (swap \<lparr>quantities = [- 1, 2]\<rparr>)) =
     Some [0xcf, 0xc4, 0x1c, 0xcd, 0xbd, 0x6c, 0x0a, 0x22, 2, 2, 2, 0, 0, 0,
           255, 255, 255, 255, 255, 255, 255, 255, 2, 0, 0, 0, 0, 0, 0, 0]"
  by (simp add: encodePoolRequest_def Basket_encode_def vec_encode_def
      POOL_REQUEST_TAG_le_bytes i64_encode_examples uint_encode_4_2)



theorem PoolRequest_encode_decode_witness:
  "PoolRequest_valid (transact (swap \<lparr>quantities = [- 1, 2]\<rparr>))
   \<and> PoolRequest_span (transact (swap \<lparr>quantities = [- 1, 2]\<rparr>)) = 30
   \<and> encodePoolRequest (transact (swap \<lparr>quantities = [- 1, 2]\<rparr>)) =
     Some [0xcf, 0xc4, 0x1c, 0xcd, 0xbd, 0x6c, 0x0a, 0x22, 2, 2, 2, 0, 0, 0,
           255, 255, 255, 255, 255, 255, 255, 255, 2, 0, 0, 0, 0, 0, 0, 0]
   \<and> decodePoolRequest [0xcf, 0xc4, 0x1c, 0xcd, 0xbd, 0x6c, 0x0a, 0x22, 2, 2, 2, 0, 0, 0,
           255, 255, 255, 255, 255, 255, 255, 255, 2, 0, 0, 0, 0, 0, 0, 0]
       = Some (transact (swap \<lparr>quantities = [- 1, 2]\<rparr>))"
proof -
  have v: "PoolRequest_valid (transact (swap \<lparr>quantities = [- 1, 2]\<rparr>))"
    by (simp add: Basket_valid_def i64_valid_def)
  have s: "PoolRequest_span (transact (swap \<lparr>quantities = [- 1, 2]\<rparr>)) = 30"
    by simp
  have s': "PoolRequest_span (transact (swap \<lparr>quantities = [- 1, 2]\<rparr>)) \<le> 1000"
    unfolding s by simp
  obtain bs where bs: "encodePoolRequest (transact (swap \<lparr>quantities = [- 1, 2]\<rparr>)) = Some bs"
    "decodePoolRequest bs = Some (transact (swap \<lparr>quantities = [- 1, 2]\<rparr>))"
    using PoolRequest_encode_decode [OF v s'] by blast
  from bs(1) have "bs = [0xcf, 0xc4, 0x1c, 0xcd, 0xbd, 0x6c, 0x0a, 0x22, 2, 2, 2, 0, 0, 0,
           255, 255, 255, 255, 255, 255, 255, 255, 2, 0, 0, 0, 0, 0, 0, 0]"
    unfolding encode_example by simp
  with bs(2) v s encode_example show ?thesis by (simp only: simp_thms)
qed

subsection \<open>Orderbook construction\<close>

text \<open>
  C8. Constructing an Orderbook from decoded account flags fails if and only if the flags
  lack \<open>initialized\<close> or do not set exactly one of \<open>bids\<close> and \<open>asks\<close>; when it succeeds the
  orderbook's side \<open>isBids\<close> is the \<open>bids\<close> flag (and market and slab are the ones given).
\<close>

theorem Orderbook_new_fails_iff:
  "((\<exists>e. Orderbook_new m flags s = Inl e) \<longleftrightarrow>
      (\<not> initialized flags \<or> \<not> ((bids flags \<and> \<not> asks flags) \<or> (\<not> bids flags \<and> asks flags))))
   \<and> (\<forall>ob. Orderbook_new m flags s = Inr ob \<longrightarrow>
          isBids ob = bids flags \<and> Orderbook.market ob = m \<and> slab ob = s)"
  by (auto simp: Orderbook_new_def)

theorem Orderbook_new_fails_iff_witness:
  "Orderbook_new market_lot2 flags_bids slab_three = Inr book_bids
   \<and> isBids book_bids = bids flags_bids
   \<and> \<not> (\<exists>e. Orderbook_new market_lot2 flags_bids slab_three = Inl e)"
  using Orderbook_new_fails_iff [of market_lot2 flags_bids slab_three]
  by (simp add: Orderbook_new_def flags_bids_def book_bids_def)

lemma Orderbook_new_asks: "Orderbook_new market_lot2 flags_asks slab_three = Inr book_asks"
  by (simp add: Orderbook_new_def flags_asks_def book_asks_def)

lemma Orderbook_new_both_sides:
  "Orderbook_new m (flags_bids\<lparr>asks := True\<rparr>) s = Inl (Error ''Invalid orderbook'')"
  by (simp add: Orderbook_new_def flags_bids_def)

subsection \<open>The pool-state magic\<close>

lemma POOL_STATE_TAG_bytes:
  "BN_toBuffer_le (nat POOL_STATE_TAG) = [0x1b, 0x30, 0xb2, 0x7f, 0x4c, 0x87, 0xa7, 0x16]"
  unfolding POOL_STATE_TAG_def by (simp add: BN_toBuffer_le.simps)

lemma POOL_REQUEST_TAG_bytes:
  "BN_toBuffer_le (nat POOL_REQUEST_TAG) = [0xcf, 0xc4, 0x1c, 0xcd, 0xbd, 0x6c, 0x0a, 0x22]"
  unfolding POOL_REQUEST_TAG_def by (simp add: BN_toBuffer_le.simps)

text \<open>
  C5. \<open>isPoolState\<close> should hold exactly when the first 8 bytes are the little-endian
  pool-state tag. The code compares with \<open>POOL_REQUEST_TAG\<close> instead: a buffer that starts
  with the pool-state tag is rejected, and one that starts with the pool-request tag is
  accepted.
\<close>

theorem isPoolState_compares_request_tag:
  "take 8 (BN_toBuffer_le (nat POOL_STATE_TAG) @ [0, 0, 0, 0]) = BN_toBuffer_le (nat POOL_STATE_TAG)
   \<and> \<not> isPoolState (BN_toBuffer_le (nat POOL_STATE_TAG) @ [0, 0, 0, 0])
   \<and> take 8 (BN_toBuffer_le (nat POOL_REQUEST_TAG) @ [0, 0, 0, 0]) \<noteq> BN_toBuffer_le (nat POOL_STATE_TAG)
   \<and> isPoolState (BN_toBuffer_le (nat POOL_REQUEST_TAG) @ [0, 0, 0, 0])"
  by (simp add: isPoolState_def POOL_STATE_TAG_bytes POOL_REQUEST_TAG_bytes)

end
